theory Spec2Isabelle
  imports Complex_Main "HOL-Library.Sublist"
begin

section \<open>JavaScript values\<close>

text \<open>
  The values the bridge handles are the values of JSON documents, together with
  \<open>undefined\<close> (the result of reading a property that is not there). A JavaScript Number
  is modelled by the rational it denotes: the request counter only ever holds 0, 1, 2, ...
  (a Number represents every integer up to \<open>2^53\<close> exactly, a count of calls no process of
  this kind reaches; beyond it the increment of a double is no longer exact and the model
  does not apply). An object is the list of its own properties, each name at most once.
\<close>

type_synonym number = rat

datatype js =
    JUndefined
  | JNull
  | JBool bool
  | JNumber number
  | JString string
  | JArray "js list"
  | JObject "(string \<times> js) list"

text \<open>
  Exceptions: \<open>new Error(msg)\<close>, and the engine's own TypeError and SyntaxError. The wording
  of the engine's messages is the engine's; the texts used for them below stand for it.
\<close>

datatype js_error = Error string | TypeError string | SyntaxError string

fun message :: "js_error \<Rightarrow> string" where
  "message (Error m) = m"
| "message (TypeError m) = m"
| "message (SyntaxError m) = m"

text \<open>
  \<open>v.k\<close> for a value \<open>v\<close> that is neither \<open>null\<close> nor \<open>undefined\<close> (on those two the
  read throws a TypeError, which every caller below writes out). The program reads the
  names \<open>id\<close>, \<open>result\<close>, \<open>output\<close> and \<open>formatted_text\<close> only, and none of them is a
  property of a string, a number, a boolean or an array.
\<close>

fun js_get :: "js \<Rightarrow> string \<Rightarrow> js" where
  "js_get (JObject kvs) k = (case map_of kvs k of Some v \<Rightarrow> v | None \<Rightarrow> JUndefined)"
| "js_get _ k = JUndefined"

definition nullish :: "js \<Rightarrow> bool" where
  "nullish v = (v = JNull \<or> v = JUndefined)"

text \<open>Truthiness, and \<open>a || b\<close>.\<close>

fun truthy :: "js \<Rightarrow> bool" where
  "truthy JUndefined = False"
| "truthy JNull = False"
| "truthy (JBool b) = b"
| "truthy (JNumber n) = (n \<noteq> 0)"
| "truthy (JString s) = (s \<noteq> [])"
| "truthy (JArray _) = True"
| "truthy (JObject _) = True"

definition js_or :: "js \<Rightarrow> js \<Rightarrow> js" where
  "js_or a b = (if truthy a then a else b)"

section \<open>MCPServerManager: the request correlator\<close>

text \<open>
  The class is the same in server-openai.js and server-enhanced.js, but for the calls of
  \<open>console.log\<close> and the path of the worker, which are not modelled.
\<close>

text \<open>
  A promise is pending, fulfilled with a value or rejected with an error; calling
  \<open>resolve\<close> or \<open>reject\<close> on a promise that is already settled does nothing.
\<close>

datatype promise = Pending | Fulfilled js | Rejected js_error

definition settle :: "promise list \<Rightarrow> nat \<Rightarrow> promise \<Rightarrow> promise list" where
  "settle ps p outcome = (if p < length ps \<and> ps ! p = Pending then ps[p := outcome] else ps)"

text \<open>
  A timer of \<open>setTimeout\<close>: the request id and the promise whose \<open>reject\<close> the callback
  closes over, the time of the call, the delay, and whether the callback has run.
\<close>

record timer =
  t_requestId :: number
  t_promise :: nat
  t_set :: nat
  t_delay :: nat
  t_fired :: bool

text \<open>
  The fields of the object (\<open>process\<close>: whether \<open>this.process\<close> is set, \<open>requestId\<close>,
  \<open>pendingRequests\<close>: the Map from request id to the \<open>{resolve, reject}\<close> pair of a promise,
  here the promise's index) and the part of the runtime it acts on: the promises created by
  \<open>callTool\<close> in creation order, the requests written to the worker's standard input, the
  timers, the clock in milliseconds, and what \<open>console.error\<close> received from the line handler.
\<close>

record manager =
  process :: bool
  requestId :: number
  pendingRequests :: "number \<rightharpoonup> nat"
  promises :: "promise list"
  stdin :: "js list"
  timers :: "timer list"
  now :: nat
  console_error :: "js_error list"

definition constructor :: manager where
  "constructor = \<lparr>process = False, requestId = 0, pendingRequests = Map.empty,
     promises = [], stdin = [], timers = [], now = 0, console_error = []\<rparr>"

definition start :: "manager \<Rightarrow> manager" where
  "start s = s\<lparr>process := True\<rparr>"

text \<open>
  \<open>callTool\<close> returns the promise it created (its index) and the new state. When
  \<open>this.process\<close> is \<open>null\<close> the write throws inside the promise's executor, after the entry
  was stored and before the timer is set: the promise is rejected with that TypeError.
\<close>

definition callTool :: "manager \<Rightarrow> string \<Rightarrow> js \<Rightarrow> nat \<times> manager" where
  "callTool s toolName args =
    (let rid = requestId s + 1;
         request = JObject [(''jsonrpc'', JString ''2.0''), (''id'', JNumber rid),
           (''method'', JString ''call_tool''),
           (''params'', JObject [(''name'', JString toolName), (''arguments'', args)])];
         p = length (promises s);
         s1 = s\<lparr>requestId := rid, promises := promises s @ [Pending],
                pendingRequests := (pendingRequests s)(rid \<mapsto> p)\<rparr>
     in if process s
        then (p, s1\<lparr>stdin := stdin s @ [request],
                     timers := timers s @ [\<lparr>t_requestId = rid, t_promise = p, t_set = now s,
                                             t_delay = 10000, t_fired = False\<rparr>]\<rparr>)
        else (p, s1\<lparr>promises := settle (promises s1) p
                     (Rejected (TypeError ''Cannot read properties of null''))\<rparr>))"

text \<open>
  The handler of a line from the worker. \<open>parse\<close> is \<open>JSON.parse\<close>: \<open>Inl\<close> is the
  exception it throws. Reading \<open>.id\<close> of \<open>null\<close> throws too, inside the same \<open>try\<close>.
  A key of the Map is a Number, so only a Number can be found in it.
\<close>

definition on_line :: "(string \<Rightarrow> js_error + js) \<Rightarrow> manager \<Rightarrow> string \<Rightarrow> manager" where
  "on_line parse s line =
    (case parse line of
       Inl e \<Rightarrow> s\<lparr>console_error := console_error s @ [e]\<rparr>
     | Inr response \<Rightarrow>
         if nullish response
         then s\<lparr>console_error := console_error s @ [TypeError ''Cannot read properties of null'']\<rparr>
         else (case js_get response ''id'' of
                 JNumber rid \<Rightarrow>
                   (case pendingRequests s rid of
                      Some p \<Rightarrow> s\<lparr>pendingRequests := (pendingRequests s)(rid := None),
                                  promises := settle (promises s) p (Fulfilled response)\<rparr>
                    | None \<Rightarrow> s)
               | _ \<Rightarrow> s))"

text \<open>The callback given to \<open>setTimeout\<close> by the call with id \<open>rid\<close> and promise \<open>p\<close>.\<close>

definition on_timeout :: "manager \<Rightarrow> number \<Rightarrow> nat \<Rightarrow> manager" where
  "on_timeout s rid p =
    (case pendingRequests s rid of
       Some _ \<Rightarrow> s\<lparr>pendingRequests := (pendingRequests s)(rid := None),
                   promises := settle (promises s) p (Rejected (Error ''MCP server timeout''))\<rparr>
     | None \<Rightarrow> s)"

section \<open>The event loop\<close>

text \<open>
  What can happen to the manager: a request handler calls \<open>callTool\<close>, the worker's output
  delivers a line, the runtime runs the callback of a timer, time passes. The runtime runs a
  timer's callback once, and not before its delay has passed since it was set; the line
  handler exists once \<open>start\<close> has run. \<open>step\<close> is \<open>None\<close> for an event the runtime cannot
  produce in that state.
\<close>

datatype event = CallTool string js | Line string | Fire nat | Tick nat

fun step :: "(string \<Rightarrow> js_error + js) \<Rightarrow> manager \<Rightarrow> event \<Rightarrow> manager option" where
  "step parse s (CallTool toolName args) = Some (snd (callTool s toolName args))"
| "step parse s (Line line) = (if process s then Some (on_line parse s line) else None)"
| "step parse s (Fire k) =
    (if k < length (timers s) \<and> \<not> t_fired (timers s ! k)
        \<and> t_set (timers s ! k) + t_delay (timers s ! k) \<le> now s
     then Some (on_timeout (s\<lparr>timers := (timers s)[k := (timers s ! k)\<lparr>t_fired := True\<rparr>]\<rparr>)
                  (t_requestId (timers s ! k)) (t_promise (timers s ! k)))
     else None)"
| "step parse s (Tick d) = Some (s\<lparr>now := now s + d\<rparr>)"

fun run :: "(string \<Rightarrow> js_error + js) \<Rightarrow> manager \<Rightarrow> event list \<Rightarrow> manager option" where
  "run parse s [] = Some s"
| "run parse s (e # es) = (case step parse s e of None \<Rightarrow> None | Some s' \<Rightarrow> run parse s' es)"

text \<open>
  The program creates one manager and calls \<open>start\<close> when the HTTP server begins to listen,
  before any request handler runs.
\<close>

definition program :: "(string \<Rightarrow> js_error + js) \<Rightarrow> event list \<Rightarrow> manager option" where
  "program parse es = run parse (start constructor) es"

text \<open>The ids of the requests sent to the worker, in the order sent.\<close>

definition allocated_ids :: "manager \<Rightarrow> js list" where
  "allocated_ids s = map (\<lambda>request. js_get request ''id'') (stdin s)"

fun is_call :: "event \<Rightarrow> bool" where
  "is_call (CallTool _ _) = True"
| "is_call _ = False"

section \<open>JSON texts\<close>

text \<open>
  \<open>JSON.parse\<close> belongs to the engine, so the handlers take the decoder as a parameter and
  every general theorem below holds for any decoder. \<open>JSON_parse\<close> is a decoder of the JSON
  grammar (ECMA-404), used to run the scenarios on the lines the worker really sends: a lexer
  that reads one character at a time, then a parser that reads one token at a time over a
  stack of the arrays and objects still open. A number is the rational its literal denotes
  (the engine rounds it to a double), a string is a list of bytes (a \<open>\u\<close> escape becomes
  the UTF-8 bytes of its code unit), and a repeated name keeps its place and takes the
  last value.
\<close>

datatype token =
    TLBrace | TRBrace | TLBracket | TRBracket | TColon | TComma
  | TString string | TNumber number | TTrue | TFalse | TNull

definition is_digit :: "char \<Rightarrow> bool" where
  "is_digit c = (48 \<le> (of_char c :: nat) \<and> (of_char c :: nat) \<le> 57)"

definition digits_val :: "string \<Rightarrow> nat" where
  "digits_val ds = foldl (\<lambda>n c. 10 * n + (of_char c - 48)) 0 ds"

fun exponent :: "string \<Rightarrow> int option" where
  "exponent [] = Some 0"
| "exponent (c # ds) =
    (if c = CHR ''e'' \<or> c = CHR ''E'' then
       (case ds of
          CHR ''+'' # ds' \<Rightarrow> if ds' \<noteq> [] \<and> list_all is_digit ds' then Some (int (digits_val ds')) else None
        | CHR ''-'' # ds' \<Rightarrow> if ds' \<noteq> [] \<and> list_all is_digit ds' then Some (- int (digits_val ds')) else None
        | _ \<Rightarrow> if ds \<noteq> [] \<and> list_all is_digit ds then Some (int (digits_val ds)) else None)
     else None)"

definition scale :: "nat \<Rightarrow> int \<Rightarrow> number" where
  "scale m e = (if 0 \<le> e then of_nat m * 10 ^ nat e else of_nat m / 10 ^ nat (- e))"

definition unsigned_literal :: "string \<Rightarrow> number option" where
  "unsigned_literal w =
    (let ip = takeWhile is_digit w; w' = dropWhile is_digit w in
     if ip = [] \<or> (1 < length ip \<and> hd ip = CHR ''0'') then None
     else (case w' of
             CHR ''.'' # w'' \<Rightarrow>
               (let fp = takeWhile is_digit w'' in
                if fp = [] then None
                else (case exponent (dropWhile is_digit w'') of
                        None \<Rightarrow> None
                      | Some e \<Rightarrow> Some (scale (digits_val (ip @ fp)) (e - int (length fp)))))
           | _ \<Rightarrow> (case exponent w' of
                     None \<Rightarrow> None
                   | Some e \<Rightarrow> Some (scale (digits_val ip) e))))"

definition number_literal :: "string \<Rightarrow> number option" where
  "number_literal w =
    (case w of
       CHR ''-'' # w' \<Rightarrow> map_option uminus (unsigned_literal w')
     | _ \<Rightarrow> unsigned_literal w)"

definition word_token :: "string \<Rightarrow> token option" where
  "word_token w =
    (if w = ''true'' then Some TTrue
     else if w = ''false'' then Some TFalse
     else if w = ''null'' then Some TNull
     else map_option TNumber (number_literal w))"

definition is_word_char :: "char \<Rightarrow> bool" where
  "is_word_char c = (is_digit c \<or> c = CHR ''-'' \<or> c = CHR ''+'' \<or> c = CHR ''.''
     \<or> (65 \<le> (of_char c :: nat) \<and> (of_char c :: nat) \<le> 90)
     \<or> (97 \<le> (of_char c :: nat) \<and> (of_char c :: nat) \<le> 122))"

definition is_space :: "char \<Rightarrow> bool" where
  "is_space c = (c = CHR '' '' \<or> c = CHR 0x09 \<or> c = CHR 0x0A \<or> c = CHR 0x0D)"

definition hex_val :: "char \<Rightarrow> nat option" where
  "hex_val c =
    (let n = (of_char c :: nat) in
     if 48 \<le> n \<and> n \<le> 57 then Some (n - 48)
     else if 65 \<le> n \<and> n \<le> 70 then Some (n - 55)
     else if 97 \<le> n \<and> n \<le> 102 then Some (n - 87)
     else None)"

definition utf8 :: "nat \<Rightarrow> string" where
  "utf8 n =
    (if n < 128 then [char_of n]
     else if n < 2048 then [char_of (192 + n div 64), char_of (128 + n mod 64)]
     else [char_of (224 + n div 4096), char_of (128 + (n div 64) mod 64), char_of (128 + n mod 64)])"

datatype lex_mode = LDefault | LWord string | LString string | LEscape string | LUnicode string nat nat

definition start_char :: "char \<Rightarrow> (token list \<times> lex_mode) option" where
  "start_char c =
    (if is_space c then Some ([], LDefault)
     else if c = CHR ''{'' then Some ([TLBrace], LDefault)
     else if c = CHR ''}'' then Some ([TRBrace], LDefault)
     else if c = CHR ''['' then Some ([TLBracket], LDefault)
     else if c = CHR '']'' then Some ([TRBracket], LDefault)
     else if c = CHR '':'' then Some ([TColon], LDefault)
     else if c = CHR '','' then Some ([TComma], LDefault)
     else if c = CHR 0x22 then Some ([], LString [])
     else if is_word_char c then Some ([], LWord [c])
     else None)"

definition escape_char :: "char \<Rightarrow> string option" where
  "escape_char c =
    (if c = CHR 0x22 \<or> c = CHR 0x5C \<or> c = CHR ''/'' then Some [c]
     else if c = CHR ''b'' then Some [CHR 0x08]
     else if c = CHR ''f'' then Some [CHR 0x0C]
     else if c = CHR ''n'' then Some [CHR 0x0A]
     else if c = CHR ''r'' then Some [CHR 0x0D]
     else if c = CHR ''t'' then Some [CHR 0x09]
     else None)"

fun lex_char :: "lex_mode \<Rightarrow> char \<Rightarrow> (token list \<times> lex_mode) option" where
  "lex_char LDefault c = start_char c"
| "lex_char (LWord w) c =
    (if is_word_char c then Some ([], LWord (w @ [c]))
     else (case word_token w of
             None \<Rightarrow> None
           | Some t \<Rightarrow> (case start_char c of
                          None \<Rightarrow> None
                        | Some (ts, m) \<Rightarrow> Some (t # ts, m))))"
| "lex_char (LString s) c =
    (if c = CHR 0x22 then Some ([TString s], LDefault)
     else if c = CHR 0x5C then Some ([], LEscape s)
     else if (of_char c :: nat) < 32 then None
     else Some ([], LString (s @ [c])))"
| "lex_char (LEscape s) c =
    (if c = CHR ''u'' then Some ([], LUnicode s 0 0)
     else (case escape_char c of
             None \<Rightarrow> None
           | Some e \<Rightarrow> Some ([], LString (s @ e))))"
| "lex_char (LUnicode s k n) c =
    (case hex_val c of
       None \<Rightarrow> None
     | Some h \<Rightarrow> if k = 3 then Some ([], LString (s @ utf8 (16 * n + h)))
                 else Some ([], LUnicode s (Suc k) (16 * n + h)))"

fun lex :: "lex_mode \<Rightarrow> string \<Rightarrow> token list option" where
  "lex LDefault [] = Some []"
| "lex (LWord w) [] = map_option (\<lambda>t. [t]) (word_token w)"
| "lex (LString s) [] = None"
| "lex (LEscape s) [] = None"
| "lex (LUnicode s k n) [] = None"
| "lex m (c # cs) =
    (case lex_char m c of
       None \<Rightarrow> None
     | Some (ts, m') \<Rightarrow> map_option (\<lambda>ts'. ts @ ts') (lex m' cs))"

datatype frame = FArray "js list" | FObject "(string \<times> js) list" string

datatype expect = SValue | SFirst | SMembers | SKey | SColon | SNext | SDone js

fun set_member :: "(string \<times> js) list \<Rightarrow> string \<Rightarrow> js \<Rightarrow> (string \<times> js) list" where
  "set_member [] k v = [(k, v)]"
| "set_member ((k', v') # ms) k v = (if k' = k then (k, v) # ms else (k', v') # set_member ms k v)"

fun reduce :: "js \<Rightarrow> frame list \<Rightarrow> expect \<times> frame list" where
  "reduce v [] = (SDone v, [])"
| "reduce v (FArray es # st) = (SNext, FArray (es @ [v]) # st)"
| "reduce v (FObject ms k # st) = (SNext, FObject (set_member ms k v) k # st)"

fun scalar :: "token \<Rightarrow> js option" where
  "scalar (TString s) = Some (JString s)"
| "scalar (TNumber n) = Some (JNumber n)"
| "scalar TTrue = Some (JBool True)"
| "scalar TFalse = Some (JBool False)"
| "scalar TNull = Some JNull"
| "scalar _ = None"

definition open_value :: "frame list \<Rightarrow> token \<Rightarrow> (expect \<times> frame list) option" where
  "open_value st t =
    (case t of
       TLBracket \<Rightarrow> Some (SFirst, FArray [] # st)
     | TLBrace \<Rightarrow> Some (SMembers, FObject [] [] # st)
     | _ \<Rightarrow> map_option (\<lambda>v. reduce v st) (scalar t))"

fun shift :: "expect \<Rightarrow> frame list \<Rightarrow> token \<Rightarrow> (expect \<times> frame list) option" where
  "shift SValue st t = open_value st t"
| "shift SFirst (FArray es # st) TRBracket = Some (reduce (JArray es) st)"
| "shift SFirst st t = open_value st t"
| "shift SMembers (FObject ms _ # st) TRBrace = Some (reduce (JObject ms) st)"
| "shift SMembers (FObject ms _ # st) (TString k) = Some (SColon, FObject ms k # st)"
| "shift SKey (FObject ms _ # st) (TString k) = Some (SColon, FObject ms k # st)"
| "shift SColon st TColon = Some (SValue, st)"
| "shift SNext (FArray es # st) TComma = Some (SValue, FArray es # st)"
| "shift SNext (FArray es # st) TRBracket = Some (reduce (JArray es) st)"
| "shift SNext (FObject ms k # st) TComma = Some (SKey, FObject ms k # st)"
| "shift SNext (FObject ms k # st) TRBrace = Some (reduce (JObject ms) st)"
| "shift _ _ _ = None"

fun parse_tokens :: "expect \<Rightarrow> frame list \<Rightarrow> token list \<Rightarrow> js option" where
  "parse_tokens (SDone v) st [] = Some v"
| "parse_tokens e st [] = None"
| "parse_tokens e st (t # ts) =
    (case shift e st t of
       None \<Rightarrow> None
     | Some (e', st') \<Rightarrow> parse_tokens e' st' ts)"

definition JSON_parse :: "string \<Rightarrow> js_error + js" where
  "JSON_parse text =
    (case lex LDefault text of
       None \<Rightarrow> Inl (SyntaxError ''Unexpected token or end of JSON input'')
     | Some ts \<Rightarrow>
        (case parse_tokens SValue [] ts of
           None \<Rightarrow> Inl (SyntaxError ''Unexpected token or end of JSON input'')
         | Some v \<Rightarrow> Inr v))"

section \<open>The chat handler of server-openai.js: tool results\<close>

text \<open>\<open>String.prototype.includes\<close>, and the text the handler looks for.\<close>

fun str_includes :: "string \<Rightarrow> string \<Rightarrow> bool" where
  "str_includes [] needle = (needle = [])"
| "str_includes (c # cs) needle = (prefix needle (c # cs) \<or> str_includes cs needle)"

definition marker :: string where
  \<open>marker = ''"property":''\<close>

text \<open>
  The normalization of the value \<open>result\<close> that \<open>await mcpServer.callTool(...)\<close> returned
  (an object: the line handler resolves with nothing else): the pair of \<open>content\<close> and
  \<open>structuredData\<close>. Inside the inner \<open>try\<close>, \<open>JSON.parse\<close> can throw, and so can
  reading \<open>formatted_text\<close> of \<open>null\<close>; in both cases neither variable was assigned.
\<close>

definition normalize :: "(string \<Rightarrow> js_error + js) \<Rightarrow> js \<Rightarrow> js \<times> js" where
  "normalize parse result =
    (let r = js_get result ''result'';
         content = js_or (js_or (if nullish r then JUndefined else js_get r ''output'') r)
                     (JString ''No result returned'')
     in case content of
          JString text \<Rightarrow>
            if str_includes text marker
            then (case parse text of
                    Inl e \<Rightarrow> (content, JNull)
                  | Inr jsonData \<Rightarrow>
                      if nullish jsonData then (content, JNull)
                      else (js_or (js_get jsonData ''formatted_text'') content, jsonData))
            else (content, JNull)
        | _ \<Rightarrow> (content, JNull))"

text \<open>
  The entry pushed to \<open>toolCallResults\<close> for one tool call, from what the \<open>await\<close> gave:
  \<open>Inr\<close> the value the promise was fulfilled with, \<open>Inl\<close> the error it was rejected with.
  The entry of the \<open>catch\<close> branch has no \<open>structuredData\<close> property.
\<close>

record tool_message =
  tool_call_id :: string
  role :: string
  name :: string
  content :: js
  structuredData :: js

definition error_message :: "string \<Rightarrow> string \<Rightarrow> js_error \<Rightarrow> tool_message" where
  "error_message call_id functionName e =
    \<lparr>tool_call_id = call_id, role = ''tool'', name = functionName,
     content = JString (''Error: '' @ message e), structuredData = JUndefined\<rparr>"

definition tool_result ::
    "(string \<Rightarrow> js_error + js) \<Rightarrow> string \<Rightarrow> string \<Rightarrow> js_error + js \<Rightarrow> tool_message" where
  "tool_result parse call_id functionName awaited =
    (case awaited of
       Inl e \<Rightarrow> error_message call_id functionName e
     | Inr result \<Rightarrow>
         if nullish result
         then error_message call_id functionName (TypeError ''Cannot read properties of null'')
         else \<lparr>tool_call_id = call_id, role = ''tool'', name = functionName,
               content = fst (normalize parse result),
               structuredData = snd (normalize parse result)\<rparr>)"

definition toolCallResults ::
    "(string \<Rightarrow> js_error + js) \<Rightarrow> (string \<times> string \<times> (js_error + js)) list \<Rightarrow> tool_message list" where
  "toolCallResults parse calls =
     map (\<lambda>(call_id, functionName, awaited). tool_result parse call_id functionName awaited) calls"

text \<open>The loop that picks the \<open>structuredData\<close> of the HTTP response, with its \<open>break\<close>.\<close>

fun response_structuredData :: "tool_message list \<Rightarrow> js" where
  "response_structuredData [] = JNull"
| "response_structuredData (toolResult # rest) =
    (if truthy (structuredData toolResult) then structuredData toolResult
     else response_structuredData rest)"

section \<open>The states a run of the program reaches\<close>

text \<open>
  Two updates a step can make to the Map and the promises: a response resolved a call, a
  timeout rejected one.
\<close>

definition resolved :: "manager \<Rightarrow> number \<Rightarrow> nat \<Rightarrow> js \<Rightarrow> manager" where
  "resolved s rid p response = s\<lparr>pendingRequests := (pendingRequests s)(rid := None),
      promises := settle (promises s) p (Fulfilled response)\<rparr>"

definition timed_out :: "manager \<Rightarrow> number \<Rightarrow> nat \<Rightarrow> manager" where
  "timed_out s rid p = s\<lparr>pendingRequests := (pendingRequests s)(rid := None),
      promises := settle (promises s) p (Rejected (Error ''MCP server timeout''))\<rparr>"

text \<open>
  What holds in every state a run of the program reaches. The call number \<open>p\<close> (counted from
  0) has the id \<open>p + 1\<close>, in its request and in its timer, and the counter holds the number of
  calls; an entry of the Map belongs to a pending promise whose timer has not run, under the
  id of its call; a pending promise has its entry; a rejected promise was rejected by its
  timer, at least 10000 ms after the call; a fulfilled promise holds a response with the id
  of its call.
\<close>

definition inv_shape :: "manager \<Rightarrow> bool" where
  "inv_shape s \<longleftrightarrow> process s
     \<and> requestId s = of_nat (length (promises s))
     \<and> length (timers s) = length (promises s)
     \<and> length (stdin s) = length (promises s)
     \<and> (\<forall>p < length (promises s).
          js_get (stdin s ! p) ''id'' = JNumber (of_nat (Suc p))
        \<and> t_requestId (timers s ! p) = of_nat (Suc p)
        \<and> t_promise (timers s ! p) = p
        \<and> t_delay (timers s ! p) = 10000)"

definition inv_pending :: "manager \<Rightarrow> bool" where
  "inv_pending s \<longleftrightarrow> (\<forall>n p. pendingRequests s n = Some p \<longrightarrow>
      p < length (promises s) \<and> n = of_nat (Suc p) \<and> promises s ! p = Pending
      \<and> \<not> t_fired (timers s ! p))"

definition inv_waiting :: "manager \<Rightarrow> bool" where
  "inv_waiting s \<longleftrightarrow> (\<forall>p < length (promises s).
      promises s ! p = Pending \<longrightarrow> pendingRequests s (of_nat (Suc p)) = Some p)"

definition inv_rejected :: "manager \<Rightarrow> bool" where
  "inv_rejected s \<longleftrightarrow> (\<forall>p < length (promises s). \<forall>e. promises s ! p = Rejected e \<longrightarrow>
      e = Error ''MCP server timeout'' \<and> t_fired (timers s ! p)
      \<and> t_set (timers s ! p) + 10000 \<le> now s)"

definition inv_fulfilled :: "manager \<Rightarrow> bool" where
  "inv_fulfilled s \<longleftrightarrow> (\<forall>p < length (promises s). \<forall>r. promises s ! p = Fulfilled r \<longrightarrow>
      js_get r ''id'' = JNumber (of_nat (Suc p)))"

definition inv :: "manager \<Rightarrow> bool" where
  "inv s \<longleftrightarrow> inv_shape s \<and> inv_pending s \<and> inv_waiting s \<and> inv_rejected s \<and> inv_fulfilled s"

text \<open>The runtime marks the timer \<open>k\<close> as run, before it runs its callback.\<close>

definition flagged :: "manager \<Rightarrow> nat \<Rightarrow> manager" where
  "flagged s k = s\<lparr>timers := (timers s)[k := (timers s ! k)\<lparr>t_fired := True\<rparr>]\<rparr>"

section \<open>Lemmas about the correlator\<close>

lemma on_line_cases:
  obtains (dropped) c where "on_line parse s line = s\<lparr>console_error := c\<rparr>"
  | (resolved) rid p response where "parse line = Inr response" "js_get response ''id'' = JNumber rid"
      "pendingRequests s rid = Some p" "on_line parse s line = resolved s rid p response"
proof (cases "parse line")
  case (Inl e)
  then have "on_line parse s line = s\<lparr>console_error := console_error s @ [e]\<rparr>"
    by (simp add: on_line_def)
  then show ?thesis by (rule dropped)
next
  case (Inr response)
  show ?thesis
  proof (cases "nullish response")
    case True
    with Inr have "on_line parse s line
        = s\<lparr>console_error := console_error s @ [TypeError ''Cannot read properties of null'']\<rparr>"
      by (simp add: on_line_def)
    then show ?thesis by (rule dropped)
  next
    case False
    have same: "s = s\<lparr>console_error := console_error s\<rparr>" by simp
    show ?thesis
    proof (cases "\<exists>rid. js_get response ''id'' = JNumber rid")
      case no_number: False
      with Inr False have "on_line parse s line = s"
        by (auto simp: on_line_def split: js.splits)
      with same have "on_line parse s line = s\<lparr>console_error := console_error s\<rparr>" by simp
      then show ?thesis by (rule dropped)
    next
      case True
      then obtain rid where JNumber: "js_get response ''id'' = JNumber rid" by blast
      show ?thesis
      proof (cases "pendingRequests s rid")
        case None
        with Inr False JNumber have "on_line parse s line = s" by (simp add: on_line_def)
        with same have "on_line parse s line = s\<lparr>console_error := console_error s\<rparr>" by simp
        then show ?thesis by (rule dropped)
      next
        case (Some p)
        with Inr False JNumber have "on_line parse s line = resolved s rid p response"
          by (simp add: on_line_def resolved_def)
        with Inr JNumber Some show ?thesis by (rule resolved)
      qed
    qed
  qed
qed

lemma on_timeout_cases:
  obtains (absent) "pendingRequests s rid = None" "on_timeout s rid p = s"
  | (present) q where "pendingRequests s rid = Some q" "on_timeout s rid p = timed_out s rid p"
  by (cases "pendingRequests s rid") (auto simp: on_timeout_def timed_out_def)

lemma inv_start: "inv (start constructor)"
  by (simp add: inv_def inv_shape_def inv_pending_def inv_waiting_def inv_rejected_def
      inv_fulfilled_def start_def constructor_def)

lemma inv_console: "inv s \<Longrightarrow> inv (s\<lparr>console_error := c\<rparr>)"
  by (simp add: inv_def inv_shape_def inv_pending_def inv_waiting_def inv_rejected_def
      inv_fulfilled_def)

lemma inv_tick: "inv s \<Longrightarrow> inv (s\<lparr>now := now s + d\<rparr>)"
  unfolding inv_def inv_shape_def inv_pending_def inv_waiting_def inv_rejected_def
      inv_fulfilled_def
  by (simp add: trans_le_add1)

lemma callTool_started:
  "process s \<Longrightarrow> snd (callTool s toolName args) =
     s\<lparr>requestId := requestId s + 1, promises := promises s @ [Pending],
       pendingRequests := (pendingRequests s)(requestId s + 1 \<mapsto> length (promises s)),
       stdin := stdin s @ [JObject [(''jsonrpc'', JString ''2.0''), (''id'', JNumber (requestId s + 1)),
           (''method'', JString ''call_tool''),
           (''params'', JObject [(''name'', JString toolName), (''arguments'', args)])]],
       timers := timers s @ [\<lparr>t_requestId = requestId s + 1, t_promise = length (promises s),
          t_set = now s, t_delay = 10000, t_fired = False\<rparr>]\<rparr>"
  by (simp add: callTool_def Let_def)

lemma inv_callTool:
  assumes "inv s"
  shows "inv (snd (callTool s toolName args))"
proof -
  from assms have sh: "inv_shape s" and pe: "inv_pending s" and wa: "inv_waiting s"
    and re: "inv_rejected s" and fu: "inv_fulfilled s"
    by (simp_all add: inv_def)
  from sh have started: "process s" by (simp add: inv_shape_def)
  note eq = callTool_started [OF started, of toolName args]
  have neq: "p < length (promises s) \<Longrightarrow> requestId s + 1 \<noteq> of_nat (Suc p)" for p
    using sh by (simp add: inv_shape_def)
  have "inv_shape (snd (callTool s toolName args))"
    using sh unfolding eq inv_shape_def
    by (simp add: nth_append less_Suc_eq)
  moreover have "inv_pending (snd (callTool s toolName args))"
    unfolding inv_pending_def
  proof (intro allI impI)
    fix n p
    assume entry: "pendingRequests (snd (callTool s toolName args)) n = Some p"
    show "p < length (promises (snd (callTool s toolName args))) \<and> n = of_nat (Suc p)
        \<and> promises (snd (callTool s toolName args)) ! p = Pending
        \<and> \<not> t_fired (timers (snd (callTool s toolName args)) ! p)"
    proof (cases "n = requestId s + 1")
      case True
      with entry have "p = length (promises s)" by (simp add: eq)
      with True sh show ?thesis by (simp add: eq inv_shape_def nth_append)
    next
      case False
      with entry have "pendingRequests s n = Some p" by (simp add: eq)
      with pe have "p < length (promises s) \<and> n = of_nat (Suc p) \<and> promises s ! p = Pending
          \<and> \<not> t_fired (timers s ! p)"
        unfolding inv_pending_def by blast
      with sh show ?thesis by (simp add: eq inv_shape_def nth_append)
    qed
  qed
  moreover have "inv_waiting (snd (callTool s toolName args))"
    using wa sh neq unfolding eq inv_waiting_def inv_shape_def
    by (auto simp: nth_append less_Suc_eq)
  moreover have "inv_rejected (snd (callTool s toolName args))"
    using re sh unfolding eq inv_rejected_def inv_shape_def
    by (auto simp: nth_append less_Suc_eq)
  moreover have "inv_fulfilled (snd (callTool s toolName args))"
    using fu unfolding eq inv_fulfilled_def
    by (auto simp: nth_append less_Suc_eq)
  ultimately show ?thesis by (simp add: inv_def)
qed

lemma settle_pending:
  "p < length ps \<Longrightarrow> ps ! p = Pending \<Longrightarrow> settle ps p outcome = ps[p := outcome]"
  by (simp add: settle_def)

lemma id_inject: "(of_nat (Suc p) :: rat) = of_nat (Suc q) \<longleftrightarrow> p = q"
  by (metis of_nat_eq_iff old.nat.inject)

lemma inv_resolved:
  assumes "inv s" and entry: "pendingRequests s rid = Some p"
    and rid: "js_get response ''id'' = JNumber rid"
  shows "inv (resolved s rid p response)"
proof -
  from assms have sh: "inv_shape s" and pe: "inv_pending s" and wa: "inv_waiting s"
    and re: "inv_rejected s" and fu: "inv_fulfilled s"
    by (simp_all add: inv_def)
  from pe entry have p: "p < length (promises s)" and rid_p: "rid = of_nat (Suc p)"
    and pending: "promises s ! p = Pending"
    unfolding inv_pending_def by blast+
  define s' where "s' = resolved s rid p response"
  have eq: "s' = s\<lparr>pendingRequests := (pendingRequests s)(rid := None),
      promises := (promises s)[p := Fulfilled response]\<rparr>"
    by (simp add: s'_def resolved_def settle_pending [OF p pending])
  have "inv_shape s'"
    using sh by (simp add: eq inv_shape_def)
  moreover have "inv_pending s'"
    unfolding inv_pending_def
  proof (intro allI impI)
    fix n q
    assume "pendingRequests s' n = Some q"
    then have n: "n \<noteq> rid" and old: "pendingRequests s n = Some q"
      by (auto simp: eq split: if_splits)
    from pe old have q: "q < length (promises s)" "n = of_nat (Suc q)" "promises s ! q = Pending"
      "\<not> t_fired (timers s ! q)"
      unfolding inv_pending_def by blast+
    from n q(2) rid_p have "q \<noteq> p" by auto
    with q show "q < length (promises s') \<and> n = of_nat (Suc q) \<and> promises s' ! q = Pending
        \<and> \<not> t_fired (timers s' ! q)"
      by (simp add: eq)
  qed
  moreover have "inv_waiting s'"
    unfolding inv_waiting_def
  proof (intro allI impI)
    fix q
    assume q: "q < length (promises s')" and "promises s' ! q = Pending"
    then have qp: "q \<noteq> p" and "promises s ! q = Pending" and q': "q < length (promises s)"
      using p by (auto simp: eq nth_list_update split: if_splits)
    with wa have "pendingRequests s (of_nat (Suc q)) = Some q"
      unfolding inv_waiting_def by blast
    moreover from qp have "(of_nat (Suc q) :: rat) \<noteq> rid"
      unfolding rid_p id_inject by simp
    ultimately show "pendingRequests s' (of_nat (Suc q)) = Some q"
      by (simp add: eq)
  qed
  moreover have "inv_rejected s'"
    unfolding inv_rejected_def
  proof (intro allI impI)
    fix q e
    assume q: "q < length (promises s')" and "promises s' ! q = Rejected e"
    then have "promises s ! q = Rejected e" and q': "q < length (promises s)"
      using p by (auto simp: eq nth_list_update split: if_splits)
    with re have "e = Error ''MCP server timeout'' \<and> t_fired (timers s ! q)
        \<and> t_set (timers s ! q) + 10000 \<le> now s"
      unfolding inv_rejected_def by blast
    then show "e = Error ''MCP server timeout'' \<and> t_fired (timers s' ! q)
        \<and> t_set (timers s' ! q) + 10000 \<le> now s'"
      by (simp add: eq)
  qed
  moreover have "inv_fulfilled s'"
    unfolding inv_fulfilled_def
  proof (intro allI impI)
    fix q r
    assume q: "q < length (promises s')" and ful: "promises s' ! q = Fulfilled r"
    show "js_get r ''id'' = JNumber (of_nat (Suc q))"
    proof (cases "q = p")
      case True
      with ful p have "r = response" by (simp add: eq)
      with rid rid_p True show ?thesis by simp
    next
      case False
      with ful q have "promises s ! q = Fulfilled r" "q < length (promises s)"
        by (simp_all add: eq)
      with fu show ?thesis unfolding inv_fulfilled_def by blast
    qed
  qed
  ultimately show ?thesis by (simp add: inv_def s'_def)
qed

lemma inv_on_line: "inv s \<Longrightarrow> inv (on_line parse s line)"
  by (cases rule: on_line_cases [of parse s line]) (simp_all add: inv_console inv_resolved)

lemma step_Fire:
  assumes "step parse s (Fire k) = Some s'"
  shows "k < length (timers s)" "\<not> t_fired (timers s ! k)"
    "t_set (timers s ! k) + t_delay (timers s ! k) \<le> now s"
    "s' = on_timeout (flagged s k) (t_requestId (timers s ! k)) (t_promise (timers s ! k))"
  using assms by (simp_all add: flagged_def split: if_splits)

lemma inv_fire:
  assumes "inv s" and fire: "step parse s (Fire k) = Some s'"
  shows "inv s'"
proof -
  from assms have sh: "inv_shape s" and pe: "inv_pending s" and wa: "inv_waiting s"
    and re: "inv_rejected s" and fu: "inv_fulfilled s"
    by (simp_all add: inv_def)
  note f = step_Fire [OF fire]
  from sh f(1) have k: "k < length (promises s)" and len: "length (timers s) = length (promises s)"
    and rid: "t_requestId (timers s ! k) = of_nat (Suc k)"
    and tp: "t_promise (timers s ! k) = k" and delay: "t_delay (timers s ! k) = 10000"
    by (simp_all add: inv_shape_def)
  from f(3) delay have due: "t_set (timers s ! k) + 10000 \<le> now s" by simp
  have s': "s' = on_timeout (flagged s k) (of_nat (Suc k)) k"
    using f(4) rid tp by simp
  have pr: "pendingRequests (flagged s k) = pendingRequests s" by (simp add: flagged_def)
  have fired: "t_fired (timers (flagged s k) ! q) \<longleftrightarrow> q = k \<or> t_fired (timers s ! q)"
    if "q < length (promises s)" for q
    using that k len by (simp add: flagged_def nth_list_update)
  have tset: "t_set (timers (flagged s k) ! q) = t_set (timers s ! q)"
    if "q < length (promises s)" for q
    using that k len by (simp add: flagged_def nth_list_update)
  have shape: "inv_shape (flagged s k)"
    using sh k unfolding inv_shape_def by (simp add: flagged_def nth_list_update)
  have rejected: "inv_rejected (flagged s k)"
    unfolding inv_rejected_def
  proof (intro allI impI)
    fix q e
    assume "q < length (promises (flagged s k))" "promises (flagged s k) ! q = Rejected e"
    then have q: "q < length (promises s)" "promises s ! q = Rejected e"
      by (simp_all add: flagged_def)
    with re have "e = Error ''MCP server timeout'' \<and> t_fired (timers s ! q)
        \<and> t_set (timers s ! q) + 10000 \<le> now s"
      unfolding inv_rejected_def by blast
    with q(1) show "e = Error ''MCP server timeout'' \<and> t_fired (timers (flagged s k) ! q)
        \<and> t_set (timers (flagged s k) ! q) + 10000 \<le> now (flagged s k)"
      by (simp add: fired tset) (simp add: flagged_def)
  qed
  show ?thesis
  proof (cases "pendingRequests s (of_nat (Suc k))")
    case None
    then have eq: "s' = flagged s k" by (simp add: s' on_timeout_def pr)
    have "inv_pending (flagged s k)"
      unfolding inv_pending_def
    proof (intro allI impI)
      fix n q
      assume "pendingRequests (flagged s k) n = Some q"
      then have old: "pendingRequests s n = Some q" by (simp add: pr)
      with pe have q: "q < length (promises s)" "n = of_nat (Suc q)" "promises s ! q = Pending"
        "\<not> t_fired (timers s ! q)"
        unfolding inv_pending_def by blast+
      from old None q(2) have "q \<noteq> k" by auto
      with q show "q < length (promises (flagged s k)) \<and> n = of_nat (Suc q)
          \<and> promises (flagged s k) ! q = Pending \<and> \<not> t_fired (timers (flagged s k) ! q)"
        by (simp add: fired) (simp add: flagged_def)
    qed
    moreover have "inv_waiting (flagged s k)"
      using wa by (simp add: inv_waiting_def flagged_def)
    moreover have "inv_fulfilled (flagged s k)"
      using fu by (simp add: inv_fulfilled_def flagged_def)
    ultimately show ?thesis
      using shape rejected by (simp add: inv_def eq)
  next
    case (Some q)
    with pe have "q < length (promises s)" "(of_nat (Suc k) :: rat) = of_nat (Suc q)"
      and pending: "promises s ! k = Pending \<or> q \<noteq> k" 
      unfolding inv_pending_def by blast+
    then have qk: "q = k" unfolding id_inject by simp
    with pending have pending: "promises s ! k = Pending" by simp
    have eq: "s' = (flagged s k)\<lparr>pendingRequests := (pendingRequests s)(of_nat (Suc k) := None),
        promises := (promises s)[k := Rejected (Error ''MCP server timeout'')]\<rparr>"
      using Some k pending
      by (simp add: s' on_timeout_def pr) (simp add: flagged_def settle_def)
    have "inv_shape s'"
      using shape by (simp add: eq inv_shape_def flagged_def)
    moreover have "inv_pending s'"
      unfolding inv_pending_def
    proof (intro allI impI)
      fix n q
      assume "pendingRequests s' n = Some q"
      then have n: "n \<noteq> of_nat (Suc k)" and old: "pendingRequests s n = Some q"
        by (auto simp: eq split: if_splits)
      from pe old have q: "q < length (promises s)" "n = of_nat (Suc q)" "promises s ! q = Pending"
        "\<not> t_fired (timers s ! q)"
        unfolding inv_pending_def by blast+
      from n q(2) have "q \<noteq> k" by auto
      with q show "q < length (promises s') \<and> n = of_nat (Suc q) \<and> promises s' ! q = Pending
          \<and> \<not> t_fired (timers s' ! q)"
        by (simp add: eq fired)
    qed
    moreover have "inv_waiting s'"
      unfolding inv_waiting_def
    proof (intro allI impI)
      fix q
      assume q: "q < length (promises s')" and "promises s' ! q = Pending"
      then have qk: "q \<noteq> k" and "promises s ! q = Pending" and q': "q < length (promises s)"
        using k by (auto simp: eq nth_list_update split: if_splits)
      with wa have "pendingRequests s (of_nat (Suc q)) = Some q"
        unfolding inv_waiting_def by blast
      moreover from qk have "(of_nat (Suc q) :: rat) \<noteq> of_nat (Suc k)"
        unfolding id_inject by simp
      ultimately show "pendingRequests s' (of_nat (Suc q)) = Some q"
        by (simp add: eq)
    qed
    moreover have "inv_rejected s'"
      unfolding inv_rejected_def
    proof (intro allI impI)
      fix q e
      assume q: "q < length (promises s')" and rej: "promises s' ! q = Rejected e"
      then have q': "q < length (promises s)" by (simp add: eq)
      show "e = Error ''MCP server timeout'' \<and> t_fired (timers s' ! q)
          \<and> t_set (timers s' ! q) + 10000 \<le> now s'"
      proof (cases "q = k")
        case True
        with rej k have "e = Error ''MCP server timeout''" by (simp add: eq)
        moreover have "timers s' = timers (flagged s k)" "now s' = now s"
          by (simp_all add: eq flagged_def)
        ultimately show ?thesis using True k due by (simp add: fired tset)
      next
        case False
        with rej q' have "promises (flagged s k) ! q = Rejected e"
          by (simp add: eq flagged_def)
        moreover have "q < length (promises (flagged s k))" using q' by (simp add: flagged_def)
        ultimately have "e = Error ''MCP server timeout'' \<and> t_fired (timers (flagged s k) ! q)
            \<and> t_set (timers (flagged s k) ! q) + 10000 \<le> now (flagged s k)"
          using rejected unfolding inv_rejected_def by blast
        then show ?thesis by (simp add: eq)
      qed
    qed
    moreover have "inv_fulfilled s'"
      unfolding inv_fulfilled_def
    proof (intro allI impI)
      fix q r
      assume q: "q < length (promises s')" and ful: "promises s' ! q = Fulfilled r"
      then have "promises s ! q = Fulfilled r" "q < length (promises s)"
        using k by (auto simp: eq nth_list_update split: if_splits)
      with fu show "js_get r ''id'' = JNumber (of_nat (Suc q))"
        unfolding inv_fulfilled_def by blast
    qed
    ultimately show ?thesis by (simp add: inv_def)
  qed
qed

lemma inv_step: "inv s \<Longrightarrow> step parse s e = Some s' \<Longrightarrow> inv s'"
proof (cases e)
  case (CallTool toolName args)
  assume "inv s" "step parse s e = Some s'"
  with CallTool show ?thesis using inv_callTool [of s toolName args] by simp
next
  case (Line line)
  assume "inv s" "step parse s e = Some s'"
  with Line show ?thesis using inv_on_line [of s parse line] by (simp split: if_splits)
next
  case (Fire k)
  assume "inv s" "step parse s e = Some s'"
  with Fire show ?thesis using inv_fire by simp
next
  case (Tick d)
  assume "inv s" "step parse s e = Some s'"
  with Tick show ?thesis using inv_tick [of s d] by auto
qed

lemma inv_run: "inv s \<Longrightarrow> run parse s es = Some s' \<Longrightarrow> inv s'"
proof (induction es arbitrary: s)
  case Nil
  then show ?case by simp
next
  case (Cons e es)
  then show ?case by (auto split: option.splits dest: inv_step)
qed

lemma inv_program: "program parse es = Some s \<Longrightarrow> inv s"
  unfolding program_def using inv_run [OF inv_start] .

lemma on_line_stdin: "stdin (on_line parse s line) = stdin s \<and> process (on_line parse s line) = process s"
  by (cases rule: on_line_cases [of parse s line]) (simp_all add: resolved_def)

lemma on_timeout_stdin: "stdin (on_timeout s rid p) = stdin s \<and> process (on_timeout s rid p) = process s"
  by (cases rule: on_timeout_cases [of s rid p]) (simp_all add: timed_out_def)

lemma step_stdin:
  assumes "process s" "step parse s e = Some s'"
  shows "process s' \<and> length (stdin s') = length (stdin s) + (if is_call e then 1 else 0)"
proof (cases e)
  case (CallTool toolName args)
  with assms show ?thesis by (auto simp: callTool_started)
next
  case (Line line)
  with assms show ?thesis by (auto simp: on_line_stdin)
next
  case (Fire k)
  with assms show ?thesis by (auto simp: on_timeout_stdin split: if_splits)
next
  case (Tick d)
  with assms show ?thesis by auto
qed

lemma run_stdin:
  "process s \<Longrightarrow> run parse s es = Some s' \<Longrightarrow>
     length (stdin s') = length (stdin s) + length (filter is_call es)"
proof (induction es arbitrary: s)
  case Nil
  then show ?case by simp
next
  case (Cons e es)
  from Cons.prems obtain s1 where s1: "step parse s e = Some s1" "run parse s1 es = Some s'"
    by (auto split: option.splits)
  from step_stdin [OF Cons.prems(1) s1(1)] Cons.IH [OF _ s1(2)]
  show ?case by (simp split: if_splits)
qed

lemma allocated_ids_upt:
  assumes "inv s"
  shows "allocated_ids s = map (\<lambda>i. JNumber (of_nat (Suc i))) [0 ..< length (stdin s)]"
proof (rule nth_equalityI)
  show "length (allocated_ids s) = length (map (\<lambda>i. JNumber (of_nat (Suc i))) [0 ..< length (stdin s)])"
    by (simp add: allocated_ids_def)
next
  fix i
  assume "i < length (allocated_ids s)"
  then have i: "i < length (stdin s)" by (simp add: allocated_ids_def)
  with assms have "js_get (stdin s ! i) ''id'' = JNumber (of_nat (Suc i))"
    by (simp add: inv_def inv_shape_def)
  then show "allocated_ids s ! i = map (\<lambda>i. JNumber (of_nat (Suc i))) [0 ..< length (stdin s)] ! i"
    using i by (simp add: allocated_ids_def)
qed

section \<open>Request identifiers\<close>

text \<open>
  Claim C7. The ids the bridge allocates are 1, 2, 3, ... in the order of the calls: the
  requests sent to the worker by a run of the program with \<open>n\<close> calls carry exactly the ids
  1 to \<open>n\<close>, the counter then holds \<open>n\<close>, no id occurs twice, a later id is larger than an
  earlier one, and the first id is 1.
\<close>

theorem request_ids_allocated:
  assumes "program parse es = Some s"
  shows "allocated_ids s = map (\<lambda>i. JNumber (of_nat (Suc i))) [0 ..< length (filter is_call es)]
    \<and> requestId s = of_nat (length (filter is_call es))
    \<and> distinct (allocated_ids s)
    \<and> (\<forall>i j. i < j \<and> j < length (allocated_ids s) \<longrightarrow>
          (\<exists>a b. allocated_ids s ! i = JNumber a \<and> allocated_ids s ! j = JNumber b \<and> a < b))
    \<and> (allocated_ids s \<noteq> [] \<longrightarrow> hd (allocated_ids s) = JNumber 1)"
proof -
  from assms have inv: "inv s" by (rule inv_program)
  from assms have n: "length (stdin s) = length (filter is_call es)"
    using run_stdin [of "start constructor" parse es s]
    by (simp add: program_def start_def constructor_def)
  let ?n = "length (filter is_call es)"
  have ids: "allocated_ids s = map (\<lambda>i. JNumber (of_nat (Suc i))) [0 ..< ?n]"
    using allocated_ids_upt [OF inv] n by simp
  have counter: "requestId s = of_nat ?n"
    using inv n by (simp add: inv_def inv_shape_def)
  have "inj_on (\<lambda>i::nat. JNumber (of_nat (Suc i))) (set [0 ..< ?n])"
    by (rule inj_onI) simp
  then have dist: "distinct (allocated_ids s)"
    unfolding ids by (simp add: distinct_map)
  have incr: "\<exists>a b. allocated_ids s ! i = JNumber a \<and> allocated_ids s ! j = JNumber b \<and> a < b"
    if "i < j \<and> j < length (allocated_ids s)" for i j
  proof -
    from that have "i < ?n" "j < ?n" "i < j" by (simp_all add: ids)
    then have "allocated_ids s ! i = JNumber (of_nat (Suc i))"
      "allocated_ids s ! j = JNumber (of_nat (Suc j))"
      unfolding ids by simp_all
    with \<open>i < j\<close> show ?thesis by simp
  qed
  have first: "hd (allocated_ids s) = JNumber 1" if "allocated_ids s \<noteq> []"
  proof -
    from that have "0 < ?n" by (simp add: ids)
    then have "allocated_ids s ! 0 = JNumber (of_nat (Suc 0))"
      unfolding ids by simp
    with that show ?thesis by (simp add: hd_conv_nth)
  qed
  from ids counter dist incr first show ?thesis by blast
qed

theorem request_ids_allocated_witness:
  "allocated_ids (the (program JSON_parse
      [CallTool ''a'' JNull, Tick 5, CallTool ''b'' JNull, CallTool ''c'' JNull]))
     = [JNumber 1, JNumber 2, JNumber 3]"
  using request_ids_allocated [of JSON_parse
      "[CallTool ''a'' JNull, Tick 5, CallTool ''b'' JNull, CallTool ''c'' JNull]"
      "the (program JSON_parse
         [CallTool ''a'' JNull, Tick 5, CallTool ''b'' JNull, CallTool ''c'' JNull])"]
  by (simp add: program_def start_def constructor_def callTool_def)

section \<open>The lines of the scenarios\<close>

text \<open>What \<open>JSON_parse\<close> returns for the lines and outputs used in the scenarios below.\<close>

lemmas json_eval = JSON_parse_def start_char_def is_space_def is_word_char_def is_digit_def
  word_token_def number_literal_def unsigned_literal_def digits_val_def scale_def open_value_def
  escape_char_def

lemma parse_output_X:
  \<open>JSON_parse ''{"id":1,"result":{"output":"X"}}'' =
     Inr (JObject [(''id'', JNumber 1), (''result'', JObject [(''output'', JString ''X'')])])\<close>
  by (simp add: json_eval)

lemma parse_output_Y:
  \<open>JSON_parse ''{"id":2,"result":{"output":"Y"}}'' =
     Inr (JObject [(''id'', JNumber 2), (''result'', JObject [(''output'', JString ''Y'')])])\<close>
  by (simp add: json_eval)

lemma parse_not_found:
  \<open>JSON_parse ''{"id":3,"error":{"message":"not found"}}'' =
     Inr (JObject [(''id'', JNumber 3), (''error'', JObject [(''message'', JString ''not found'')])])\<close>
  by (simp add: json_eval)

lemma parse_diagnostic:
  \<open>JSON_parse ''Loading NIST data...'' = Inl (SyntaxError ''Unexpected token or end of JSON input'')\<close>
  by (simp add: json_eval)

lemma parse_density:
  \<open>JSON_parse ''{"property":"density","formatted_text":"997.0 kg/m3","value":997.0}'' =
     Inr (JObject [(''property'', JString ''density''), (''formatted_text'', JString ''997.0 kg/m3''),
       (''value'', JNumber 997)])\<close>
  by (simp add: json_eval)

lemma parse_spaced:
  \<open>JSON_parse ''{"property" :"density","formatted_text":"997.0 kg/m3"}'' =
     Inr (JObject [(''property'', JString ''density''), (''formatted_text'', JString ''997.0 kg/m3'')])\<close>
  by (simp add: json_eval)

lemma parse_fragment:
  \<open>JSON_parse ''"property": 1'' = Inl (SyntaxError ''Unexpected token or end of JSON input'')\<close>
  by (simp add: json_eval)

section \<open>Resolution and timeout of one call\<close>

lemma settle_length: "length (settle ps p outcome) = length ps"
  by (simp add: settle_def)

lemma settle_settled: "ps ! q \<noteq> Pending \<Longrightarrow> settle ps p outcome ! q = ps ! q"
  by (cases "q = p") (auto simp: settle_def)

lemma on_line_settled:
  "promises s ! q \<noteq> Pending \<Longrightarrow> promises (on_line parse s line) ! q = promises s ! q"
  by (cases rule: on_line_cases [of parse s line]) (simp_all add: resolved_def settle_settled)

lemma on_line_length: "length (promises (on_line parse s line)) = length (promises s)"
  by (cases rule: on_line_cases [of parse s line]) (simp_all add: resolved_def settle_length)

lemma on_timeout_settled:
  "promises s ! q \<noteq> Pending \<Longrightarrow> promises (on_timeout s rid p) ! q = promises s ! q"
  by (cases rule: on_timeout_cases [of s rid p]) (simp_all add: timed_out_def settle_settled)

lemma on_timeout_length: "length (promises (on_timeout s rid p)) = length (promises s)"
  by (cases rule: on_timeout_cases [of s rid p]) (simp_all add: timed_out_def settle_length)

lemma callTool_settled:
  "q < length (promises s) \<Longrightarrow> promises (snd (callTool s toolName args)) ! q = promises s ! q"
  by (simp add: callTool_def Let_def settle_def nth_append nth_list_update)

lemma callTool_length:
  "length (promises (snd (callTool s toolName args))) = Suc (length (promises s))"
  by (simp add: callTool_def Let_def settle_def)

lemma step_settled:
  assumes "step parse s e = Some s'" "q < length (promises s)" "promises s ! q \<noteq> Pending"
  shows "promises s' ! q = promises s ! q \<and> q < length (promises s')"
proof (cases e)
  case (CallTool toolName args)
  with assms show ?thesis by (auto simp: callTool_settled callTool_length)
next
  case (Line line)
  with assms show ?thesis by (auto simp: on_line_settled on_line_length split: if_splits)
next
  case (Fire k)
  with assms show ?thesis by (auto simp: on_timeout_settled on_timeout_length split: if_splits)
next
  case (Tick d)
  with assms show ?thesis by auto
qed

lemma run_settled:
  "run parse s es = Some s' \<Longrightarrow> q < length (promises s) \<Longrightarrow> promises s ! q \<noteq> Pending \<Longrightarrow>
     promises s' ! q = promises s ! q \<and> q < length (promises s')"
proof (induction es arbitrary: s)
  case Nil
  then show ?case by simp
next
  case (Cons e es)
  from Cons.prems(1) obtain s1 where s1: "step parse s e = Some s1" "run parse s1 es = Some s'"
    by (auto split: option.splits)
  from step_settled [OF s1(1) Cons.prems(2,3)]
  have "promises s1 ! q = promises s ! q" "q < length (promises s1)" by simp_all
  with Cons.IH [OF s1(2)] Cons.prems(3) show ?case by simp
qed

lemma absent_iff_settled:
  assumes "inv s" "k < length (promises s)"
  shows "pendingRequests s (of_nat (Suc k)) = None \<longleftrightarrow> promises s ! k \<noteq> Pending"
proof
  assume "pendingRequests s (of_nat (Suc k)) = None"
  with assms show "promises s ! k \<noteq> Pending"
    by (auto simp: inv_def inv_waiting_def)
next
  assume settled: "promises s ! k \<noteq> Pending"
  show "pendingRequests s (of_nat (Suc k)) = None"
  proof (rule ccontr)
    assume "pendingRequests s (of_nat (Suc k)) \<noteq> None"
    then obtain q where q: "pendingRequests s (of_nat (Suc k)) = Some q" by blast
    with assms(1) have "(of_nat (Suc k) :: rat) = of_nat (Suc q)" "promises s ! q = Pending"
      unfolding inv_def inv_pending_def by blast+
    with settled show False unfolding id_inject by simp
  qed
qed

lemma on_line_absent:
  "parse line = Inr response \<Longrightarrow> js_get response ''id'' = JNumber rid \<Longrightarrow>
     pendingRequests s rid = None \<Longrightarrow> on_line parse s line = s"
  by (cases response) (simp_all add: on_line_def nullish_def)

lemma on_line_removes:
  "parse line = Inr response \<Longrightarrow> js_get response ''id'' = JNumber rid \<Longrightarrow>
     pendingRequests (on_line parse s line) rid = None"
  by (cases response; cases "pendingRequests s rid") (simp_all add: on_line_def nullish_def)

lemma on_timeout_absent: "pendingRequests s rid = None \<Longrightarrow> on_timeout s rid p = s"
  by (simp add: on_timeout_def)

lemma on_timeout_removes: "pendingRequests (on_timeout s rid p) rid = None"
  by (cases "pendingRequests s rid") (simp_all add: on_timeout_def)

text \<open>
  Claim C1. For a request id, the resolution by a response and the rejection by the timeout
  exclude each other: each of them removes the entry of the id from the Map, so the timeout
  after a response, a response after the timeout and a second response for the same id all
  leave the whole state as it is. And in a run of the program, once the entry of a call is
  gone its promise is settled, and nothing that happens later (late or repeated responses,
  the timer) changes that promise or brings the entry back.
\<close>

theorem response_and_timeout_exclusive:
  assumes line: "parse line = Inr response" "js_get response ''id'' = JNumber rid"
    and dup: "parse line' = Inr response'" "js_get response' ''id'' = JNumber rid"
  shows "on_timeout (on_line parse s line) rid p = on_line parse s line
    \<and> on_line parse (on_timeout s rid p) line = on_timeout s rid p
    \<and> on_line parse (on_line parse s line) line' = on_line parse s line
    \<and> (program parse es = Some s \<and> run parse s es' = Some s' \<and> rid = of_nat (Suc k)
         \<and> k < length (promises s) \<and> pendingRequests s rid = None
       \<longrightarrow> promises s ! k \<noteq> Pending \<and> promises s' ! k = promises s ! k
           \<and> pendingRequests s' rid = None)"
proof -
  have removed: "pendingRequests (on_line parse s line) rid = None"
    using line by (rule on_line_removes [of parse line response rid s])
  have a: "on_timeout (on_line parse s line) rid p = on_line parse s line"
    using removed by (rule on_timeout_absent)
  have b: "on_line parse (on_timeout s rid p) line = on_timeout s rid p"
    using line on_timeout_removes
    by (rule on_line_absent [of parse line response rid "on_timeout s rid p"])
  have c: "on_line parse (on_line parse s line) line' = on_line parse s line"
    using dup removed
    by (rule on_line_absent [of parse line' response' rid "on_line parse s line"])
  have d: "promises s ! k \<noteq> Pending \<and> promises s' ! k = promises s ! k
      \<and> pendingRequests s' rid = None"
    if run: "program parse es = Some s" "run parse s es' = Some s'" and rid: "rid = of_nat (Suc k)"
      and k: "k < length (promises s)" and absent: "pendingRequests s rid = None"
  proof -
    from run(1) have inv: "inv s" by (rule inv_program)
    from inv run(2) have inv': "inv s'" by (rule inv_run)
    from absent have settled: "promises s ! k \<noteq> Pending"
      unfolding rid absent_iff_settled [OF inv k] .
    from run_settled [OF run(2) k settled]
    have same: "promises s' ! k = promises s ! k" and k': "k < length (promises s')" by simp_all
    from same settled have "promises s' ! k \<noteq> Pending" by simp
    then have "pendingRequests s' rid = None"
      unfolding rid absent_iff_settled [OF inv' k'] .
    with settled same show ?thesis by simp
  qed
  show ?thesis
  proof (intro conjI)
    show "program parse es = Some s \<and> run parse s es' = Some s' \<and> rid = of_nat (Suc k)
         \<and> k < length (promises s) \<and> pendingRequests s rid = None
       \<longrightarrow> promises s ! k \<noteq> Pending \<and> promises s' ! k = promises s ! k
           \<and> pendingRequests s' rid = None"
    proof
      assume h: "program parse es = Some s \<and> run parse s es' = Some s' \<and> rid = of_nat (Suc k)
         \<and> k < length (promises s) \<and> pendingRequests s rid = None"
      show "promises s ! k \<noteq> Pending \<and> promises s' ! k = promises s ! k
           \<and> pendingRequests s' rid = None"
        by (rule d) (use h in blast)+
    qed
  qed (rule a b c)+
qed

lemmas run_eval = program_def start_def constructor_def callTool_def on_line_def on_timeout_def
  nullish_def settle_def

theorem response_and_timeout_exclusive_witness:
  \<open>program JSON_parse [CallTool ''calculate_property'' (JObject []),
       Line ''{"id":1,"result":{"output":"X"}}''] \<noteq> None
   \<and> pendingRequests (the (program JSON_parse [CallTool ''calculate_property'' (JObject []),
       Line ''{"id":1,"result":{"output":"X"}}''])) 1 = None
   \<and> run JSON_parse (the (program JSON_parse [CallTool ''calculate_property'' (JObject []),
       Line ''{"id":1,"result":{"output":"X"}}''])) [Tick 10000, Fire 0] \<noteq> None
   \<and> promises (the (run JSON_parse (the (program JSON_parse
       [CallTool ''calculate_property'' (JObject []), Line ''{"id":1,"result":{"output":"X"}}'']))
       [Tick 10000, Fire 0])) ! 0
     = Fulfilled (JObject [(''id'', JNumber 1), (''result'', JObject [(''output'', JString ''X'')])])
   \<and> pendingRequests (the (run JSON_parse (the (program JSON_parse
       [CallTool ''calculate_property'' (JObject []), Line ''{"id":1,"result":{"output":"X"}}'']))
       [Tick 10000, Fire 0])) 1 = None\<close>
  using response_and_timeout_exclusive [of JSON_parse \<open>''{"id":1,"result":{"output":"X"}}''\<close>
      "JObject [(''id'', JNumber 1), (''result'', JObject [(''output'', JString ''X'')])]" 1
      \<open>''{"id":1,"result":{"output":"X"}}''\<close>
      "JObject [(''id'', JNumber 1), (''result'', JObject [(''output'', JString ''X'')])]"
      \<open>the (program JSON_parse [CallTool ''calculate_property'' (JObject []),
         Line ''{"id":1,"result":{"output":"X"}}''])\<close> 0
      \<open>[CallTool ''calculate_property'' (JObject []), Line ''{"id":1,"result":{"output":"X"}}'']\<close>
      "[Tick 10000, Fire 0]"
      \<open>the (run JSON_parse (the (program JSON_parse
       [CallTool ''calculate_property'' (JObject []), Line ''{"id":1,"result":{"output":"X"}}'']))
       [Tick 10000, Fire 0])\<close> 0]
  by (simp add: run_eval parse_output_X)

section \<open>Responses that carry an error\<close>

lemma on_line_match:
  assumes "parse line = Inr response" "js_get response ''id'' = JNumber rid"
    "pendingRequests s rid = Some p"
  shows "on_line parse s line = resolved s rid p response"
  using assms by (cases response) (simp_all add: on_line_def nullish_def resolved_def)

lemma on_line_keeps_rejected:
  "promises (on_line parse s line) ! q = Rejected e \<Longrightarrow> promises s ! q = Rejected e"
proof (cases rule: on_line_cases [of parse s line])
  case (dropped c)
  assume "promises (on_line parse s line) ! q = Rejected e"
  with dropped show ?thesis by simp
next
  case (resolved rid p response)
  assume "promises (on_line parse s line) ! q = Rejected e"
  with resolved(4) show ?thesis
    by (cases "q = p") (auto simp: resolved_def settle_def split: if_splits)
qed

text \<open>
  Claim C9. The promise that \<open>callTool\<close> returns is rejected by the timeout only: in a run
  of the program every rejected promise holds the error \<open>MCP server timeout\<close> and its timer
  has run; a response whose id is in the Map fulfils the promise with the whole response
  object, whatever its fields; and the line handler never turns a promise into a rejected one.
\<close>

theorem rejected_only_by_timeout:
  assumes "program parse es = Some s"
  shows "(\<forall>p e. p < length (promises s) \<and> promises s ! p = Rejected e \<longrightarrow>
            e = Error ''MCP server timeout'' \<and> t_fired (timers s ! p))
    \<and> (\<forall>line response rid p. parse line = Inr response \<and> js_get response ''id'' = JNumber rid
            \<and> pendingRequests s rid = Some p \<longrightarrow>
            promises (on_line parse s line) ! p = Fulfilled response)
    \<and> (\<forall>line q e. promises (on_line parse s line) ! q = Rejected e \<longrightarrow>
            promises s ! q = Rejected e)"
proof (intro conjI allI impI)
  from assms have inv: "inv s" by (rule inv_program)
  {
    fix p e
    assume "p < length (promises s) \<and> promises s ! p = Rejected e"
    with inv have "e = Error ''MCP server timeout'' \<and> t_fired (timers s ! p)
        \<and> t_set (timers s ! p) + 10000 \<le> now s"
      unfolding inv_def inv_rejected_def by blast
    then show "e = Error ''MCP server timeout''" "t_fired (timers s ! p)" by simp_all
  }
  {
    fix line response rid p
    assume h: "parse line = Inr response \<and> js_get response ''id'' = JNumber rid
        \<and> pendingRequests s rid = Some p"
    then have eq: "on_line parse s line = resolved s rid p response"
      using on_line_match [of parse line response rid s p] by blast
    from inv h have "p < length (promises s)" "promises s ! p = Pending"
      unfolding inv_def inv_pending_def by blast+
    then show "promises (on_line parse s line) ! p = Fulfilled response"
      by (simp add: eq resolved_def settle_def)
  }
  {
    fix line q e
    assume "promises (on_line parse s line) ! q = Rejected e"
    then show "promises s ! q = Rejected e" by (rule on_line_keeps_rejected)
  }
qed

theorem rejected_only_by_timeout_witness:
  \<open>program JSON_parse [CallTool ''a'' JNull, CallTool ''b'' JNull, CallTool ''c'' JNull,
      Tick 10000, Fire 0] \<noteq> None
   \<and> promises (the (program JSON_parse [CallTool ''a'' JNull, CallTool ''b'' JNull,
        CallTool ''c'' JNull, Tick 10000, Fire 0]))
      = [Rejected (Error ''MCP server timeout''), Pending, Pending]
   \<and> t_fired (timers (the (program JSON_parse [CallTool ''a'' JNull, CallTool ''b'' JNull,
        CallTool ''c'' JNull, Tick 10000, Fire 0])) ! 0)
   \<and> promises (on_line JSON_parse (the (program JSON_parse [CallTool ''a'' JNull,
        CallTool ''b'' JNull, CallTool ''c'' JNull, Tick 10000, Fire 0]))
        ''{"id":3,"error":{"message":"not found"}}'') ! 2
      = Fulfilled (JObject [(''id'', JNumber 3),
          (''error'', JObject [(''message'', JString ''not found'')])])\<close>
  using rejected_only_by_timeout [of JSON_parse
      "[CallTool ''a'' JNull, CallTool ''b'' JNull, CallTool ''c'' JNull, Tick 10000, Fire 0]"
      "the (program JSON_parse [CallTool ''a'' JNull, CallTool ''b'' JNull, CallTool ''c'' JNull,
        Tick 10000, Fire 0])"]
  by (simp add: run_eval parse_not_found)

text \<open>
  Claim C2, as the spec states it: a response with an error field rejects the promise of its
  call with the worker's message. The line handler has no such branch. With three calls
  pending, the line \<open>{"id":3,"error":{"message":"not found"}}\<close> fulfils the promise of the
  third call with the response object; the promise is not rejected.
\<close>

theorem error_response_counterexample:
  \<open>pendingRequests (the (program JSON_parse [CallTool ''calculate_property'' (JObject []),
        CallTool ''search_components'' (JObject []),
        CallTool ''calculate_property'' (JObject [])])) 3 = Some 2
   \<and> promises (on_line JSON_parse (the (program JSON_parse
        [CallTool ''calculate_property'' (JObject []),
         CallTool ''search_components'' (JObject []),
         CallTool ''calculate_property'' (JObject [])]))
        ''{"id":3,"error":{"message":"not found"}}'') ! 2
      = Fulfilled (JObject [(''id'', JNumber 3),
          (''error'', JObject [(''message'', JString ''not found'')])])
   \<and> promises (on_line JSON_parse (the (program JSON_parse
        [CallTool ''calculate_property'' (JObject []),
         CallTool ''search_components'' (JObject []),
         CallTool ''calculate_property'' (JObject [])]))
        ''{"id":3,"error":{"message":"not found"}}'') ! 2
      \<noteq> Rejected (Error ''not found'')\<close>
  by (simp add: run_eval parse_not_found)

text \<open>
  Claim C2, amended. In a run of the program, a response with an error field whose id is in
  the Map fulfils the pending promise of that call with the whole response, so that the
  worker's message is the \<open>error.message\<close> of the value the caller receives; the entry of the
  id is removed, and every other promise and every other entry of the Map stay as they are.
\<close>

theorem error_response_fulfils:
  assumes "program parse es = Some s"
    and "parse line = Inr response" "js_get response ''id'' = JNumber rid"
    and "js_get (js_get response ''error'') ''message'' = JString msg"
    and "pendingRequests s rid = Some p"
  shows "promises s ! p = Pending
    \<and> (\<exists>v. promises (on_line parse s line) ! p = Fulfilled v \<and> v = response
          \<and> js_get (js_get v ''error'') ''message'' = JString msg)
    \<and> pendingRequests (on_line parse s line) rid = None
    \<and> (\<forall>q. q \<noteq> p \<longrightarrow> promises (on_line parse s line) ! q = promises s ! q)
    \<and> (\<forall>n. n \<noteq> rid \<longrightarrow> pendingRequests (on_line parse s line) n = pendingRequests s n)
    \<and> timers (on_line parse s line) = timers s"
proof -
  from assms(1) have inv: "inv s" by (rule inv_program)
  from assms(2,3,5) have eq: "on_line parse s line = resolved s rid p response"
    by (rule on_line_match)
  from inv assms(5) have p: "p < length (promises s)" and pending: "promises s ! p = Pending"
    unfolding inv_def inv_pending_def by blast+
  have "promises (on_line parse s line) ! p = Fulfilled response"
    using p pending by (simp add: eq resolved_def settle_def)
  moreover have "pendingRequests (on_line parse s line) rid = None"
    by (simp add: eq resolved_def)
  moreover have "promises (on_line parse s line) ! q = promises s ! q" if "q \<noteq> p" for q
    using that by (simp add: eq resolved_def settle_def)
  moreover have "pendingRequests (on_line parse s line) n = pendingRequests s n" if "n \<noteq> rid" for n
    using that by (simp add: eq resolved_def)
  moreover have "timers (on_line parse s line) = timers s"
    by (simp add: eq resolved_def)
  ultimately show ?thesis using pending assms(4) by simp
qed

theorem error_response_fulfils_witness:
  \<open>program JSON_parse [CallTool ''calculate_property'' (JObject []),
        CallTool ''search_components'' (JObject []),
        CallTool ''calculate_property'' (JObject [])] \<noteq> None
   \<and> pendingRequests (the (program JSON_parse [CallTool ''calculate_property'' (JObject []),
        CallTool ''search_components'' (JObject []),
        CallTool ''calculate_property'' (JObject [])])) 3 = Some 2
   \<and> promises (on_line JSON_parse (the (program JSON_parse
        [CallTool ''calculate_property'' (JObject []),
         CallTool ''search_components'' (JObject []),
         CallTool ''calculate_property'' (JObject [])]))
        ''{"id":3,"error":{"message":"not found"}}'')
      = [Pending, Pending, Fulfilled (JObject [(''id'', JNumber 3),
          (''error'', JObject [(''message'', JString ''not found'')])])]
   \<and> pendingRequests (on_line JSON_parse (the (program JSON_parse
        [CallTool ''calculate_property'' (JObject []),
         CallTool ''search_components'' (JObject []),
         CallTool ''calculate_property'' (JObject [])]))
        ''{"id":3,"error":{"message":"not found"}}'') 2 = Some 1\<close>
  using error_response_fulfils [of JSON_parse
      "[CallTool ''calculate_property'' (JObject []), CallTool ''search_components'' (JObject []),
        CallTool ''calculate_property'' (JObject [])]"
      "the (program JSON_parse [CallTool ''calculate_property'' (JObject []),
        CallTool ''search_components'' (JObject []), CallTool ''calculate_property'' (JObject [])])"
      \<open>''{"id":3,"error":{"message":"not found"}}''\<close>
      "JObject [(''id'', JNumber 3), (''error'', JObject [(''message'', JString ''not found'')])]"
      3 "''not found''" 2]
  by (simp add: run_eval parse_not_found)

section \<open>The timeout of a call\<close>

lemma fire_shape:
  assumes inv: "inv s" and fire: "step parse s (Fire p) = Some s'"
  shows "p < length (promises s)" "t_set (timers s ! p) + 10000 \<le> now s"
    "s' = on_timeout (flagged s p) (of_nat (Suc p)) p"
proof -
  note f = step_Fire [OF fire]
  from inv f(1) show p: "p < length (promises s)" by (simp add: inv_def inv_shape_def)
  with inv have "t_requestId (timers s ! p) = of_nat (Suc p)" "t_promise (timers s ! p) = p"
    "t_delay (timers s ! p) = 10000"
    by (simp_all add: inv_def inv_shape_def)
  with f(3,4) show "t_set (timers s ! p) + 10000 \<le> now s"
    "s' = on_timeout (flagged s p) (of_nat (Suc p)) p"
    by simp_all
qed

lemma fire_pending:
  assumes inv: "inv s" and fire: "step parse s (Fire p) = Some s'"
    and pending: "promises s ! p = Pending"
  shows "promises s' ! p = Rejected (Error ''MCP server timeout'')"
    "pendingRequests s' (of_nat (Suc p)) = None"
proof -
  note sh = fire_shape [OF inv fire]
  from inv sh(1) pending have "pendingRequests s (of_nat (Suc p)) = Some p"
    by (simp add: inv_def inv_waiting_def)
  then have "pendingRequests (flagged s p) (of_nat (Suc p)) = Some p"
    by (simp add: flagged_def)
  then have eq: "s' = timed_out (flagged s p) (of_nat (Suc p)) p"
    unfolding sh(3) by (simp add: on_timeout_def timed_out_def)
  show "promises s' ! p = Rejected (Error ''MCP server timeout'')"
    using sh(1) pending by (simp add: eq timed_out_def flagged_def settle_def)
  show "pendingRequests s' (of_nat (Suc p)) = None"
    by (simp add: eq timed_out_def)
qed

lemma fire_settled:
  assumes inv: "inv s" and fire: "step parse s (Fire p) = Some s'"
    and settled: "promises s ! p \<noteq> Pending"
  shows "promises s' = promises s" "pendingRequests s' = pendingRequests s"
proof -
  note sh = fire_shape [OF inv fire]
  from settled have "pendingRequests s (of_nat (Suc p)) = None"
    unfolding absent_iff_settled [OF inv sh(1)] .
  then have "pendingRequests (flagged s p) (of_nat (Suc p)) = None"
    by (simp add: flagged_def)
  then have eq: "s' = flagged s p"
    unfolding sh(3) by (rule on_timeout_absent)
  show "promises s' = promises s" "pendingRequests s' = pendingRequests s"
    by (simp_all add: eq flagged_def)
qed

lemma fire_once:
  assumes fire: "step parse s (Fire p) = Some s'"
  shows "step parse s' (Fire p) = None"
proof -
  note f = step_Fire [OF fire]
  have "timers (on_timeout t rid q) = timers t" for t rid q
    by (cases rule: on_timeout_cases [of t rid q]) (simp_all add: timed_out_def)
  then have "timers s' = timers (flagged s p)" unfolding f(4) .
  with f(1) have "t_fired (timers s' ! p)" by (simp add: flagged_def)
  then show ?thesis by simp
qed

text \<open>
  Claim C3. \<open>callTool\<close> sets one timer, with the delay 10000 ms counted from the time of
  the call, and nothing else sets a timer: a state of a run has one timer per call, each with
  the id and the promise of its call and the delay 10000, and the runtime runs it once. When
  the timer of a call runs while the call is pending, the entry is removed and the promise
  is rejected with \<open>MCP server timeout\<close>; when the call is settled already, the promises
  and the Map stay as they are. A promise is rejected with this message only, and only at a
  time at least 10000 ms after its call was registered.
\<close>

theorem timeout_after_10000:
  assumes "program parse es = Some s"
  shows "timers (snd (callTool s toolName args)) =
      timers s @ [\<lparr>t_requestId = requestId s + 1, t_promise = length (promises s),
                    t_set = now s, t_delay = 10000, t_fired = False\<rparr>]
    \<and> length (timers s) = length (promises s)
    \<and> (\<forall>p. p < length (promises s) \<longrightarrow>
          t_promise (timers s ! p) = p \<and> t_requestId (timers s ! p) = of_nat (Suc p)
          \<and> t_delay (timers s ! p) = 10000)
    \<and> (\<forall>p e. p < length (promises s) \<and> promises s ! p = Rejected e \<longrightarrow>
          e = Error ''MCP server timeout'' \<and> t_set (timers s ! p) + 10000 \<le> now s)
    \<and> (\<forall>p s'. step parse s (Fire p) = Some s' \<longrightarrow>
          t_set (timers s ! p) + 10000 \<le> now s \<and> step parse s' (Fire p) = None)
    \<and> (\<forall>p s'. step parse s (Fire p) = Some s' \<and> promises s ! p = Pending \<longrightarrow>
          promises s' ! p = Rejected (Error ''MCP server timeout'')
          \<and> pendingRequests s' (of_nat (Suc p)) = None)
    \<and> (\<forall>p s'. step parse s (Fire p) = Some s' \<and> promises s ! p \<noteq> Pending \<longrightarrow>
          promises s' = promises s \<and> pendingRequests s' = pendingRequests s)"
proof -
  from assms have inv: "inv s" by (rule inv_program)
  then have started: "process s" by (simp add: inv_def inv_shape_def)
  have a: "timers (snd (callTool s toolName args)) =
      timers s @ [\<lparr>t_requestId = requestId s + 1, t_promise = length (promises s),
                    t_set = now s, t_delay = 10000, t_fired = False\<rparr>]"
    by (simp add: callTool_started [OF started])
  have b: "length (timers s) = length (promises s)"
    using inv by (simp add: inv_def inv_shape_def)
  have c: "t_promise (timers s ! p) = p \<and> t_requestId (timers s ! p) = of_nat (Suc p)
      \<and> t_delay (timers s ! p) = 10000" if "p < length (promises s)" for p
    using inv that by (simp add: inv_def inv_shape_def)
  have d: "e = Error ''MCP server timeout'' \<and> t_set (timers s ! p) + 10000 \<le> now s"
    if "p < length (promises s) \<and> promises s ! p = Rejected e" for p e
    using inv that unfolding inv_def inv_rejected_def by blast
  have e: "t_set (timers s ! p) + 10000 \<le> now s \<and> step parse s' (Fire p) = None"
    if "step parse s (Fire p) = Some s'" for p s'
    using fire_shape(2) [OF inv that] fire_once [OF that] by simp
  have f: "promises s' ! p = Rejected (Error ''MCP server timeout'')
      \<and> pendingRequests s' (of_nat (Suc p)) = None"
    if "step parse s (Fire p) = Some s' \<and> promises s ! p = Pending" for p s'
    using fire_pending [OF inv, of parse p s'] that by simp
  have g: "promises s' = promises s \<and> pendingRequests s' = pendingRequests s"
    if "step parse s (Fire p) = Some s' \<and> promises s ! p \<noteq> Pending" for p s'
    using fire_settled [OF inv, of parse p s'] that by simp
  show ?thesis
    by (intro conjI allI impI; (rule a b)?; (drule c d e f g)?; simp)
qed

theorem timeout_after_10000_witness:
  "program JSON_parse [CallTool ''calculate_property'' (JObject []), Tick 10000] \<noteq> None
   \<and> timers (the (program JSON_parse [CallTool ''calculate_property'' (JObject []), Tick 10000]))
      = [\<lparr>t_requestId = 1, t_promise = 0, t_set = 0, t_delay = 10000, t_fired = False\<rparr>]
   \<and> step JSON_parse (the (program JSON_parse
        [CallTool ''calculate_property'' (JObject []), Tick 10000])) (Fire 0) \<noteq> None
   \<and> promises (the (step JSON_parse (the (program JSON_parse
        [CallTool ''calculate_property'' (JObject []), Tick 10000])) (Fire 0)))
      = [Rejected (Error ''MCP server timeout'')]
   \<and> step JSON_parse (the (program JSON_parse
        [CallTool ''calculate_property'' (JObject []), Tick 9999])) (Fire 0) = None"
  using timeout_after_10000 [of JSON_parse
      "[CallTool ''calculate_property'' (JObject []), Tick 10000]"
      "the (program JSON_parse [CallTool ''calculate_property'' (JObject []), Tick 10000])"
      "''search_components''" "JObject []"]
  by (simp add: run_eval)

section \<open>Responses out of order\<close>

text \<open>
  Claim C4. A response is matched to a call by its id alone. When two calls are made (they
  get the ids 1 and 2) and the worker answers id 2 first, the promise of the second call is
  fulfilled with that response while the first is still pending; the response for id 1 then
  fulfils the first. In every run of the program, a promise is only ever fulfilled with a
  response that carries the id its own request carried.
\<close>

theorem responses_matched_by_id:
  assumes r2: "parse line2 = Inr response2" "js_get response2 ''id'' = JNumber 2"
    and r1: "parse line1 = Inr response1" "js_get response1 ''id'' = JNumber 1"
  shows "(\<exists>s. program parse [CallTool name1 args1, CallTool name2 args2, Line line2] = Some s
            \<and> allocated_ids s = [JNumber 1, JNumber 2]
            \<and> promises s = [Pending, Fulfilled response2])
    \<and> (\<exists>s. program parse [CallTool name1 args1, CallTool name2 args2, Line line2, Line line1]
              = Some s
            \<and> promises s = [Fulfilled response1, Fulfilled response2])
    \<and> (\<forall>es s p r. program parse es = Some s \<and> p < length (promises s)
            \<and> promises s ! p = Fulfilled r \<longrightarrow>
            js_get r ''id'' = JNumber (of_nat (Suc p))
            \<and> js_get (stdin s ! p) ''id'' = JNumber (of_nat (Suc p)))"
proof (intro conjI allI impI)
  define s0 where "s0 = snd (callTool (snd (callTool (start constructor) name1 args1)) name2 args2)"
  have s0: "process s0" "promises s0 = [Pending, Pending]" "pendingRequests s0 1 = Some 0"
    "pendingRequests s0 2 = Some 1" "allocated_ids s0 = [JNumber 1, JNumber 2]"
    by (simp_all add: s0_def start_def constructor_def callTool_def allocated_ids_def)
  define s1 where "s1 = on_line parse s0 line2"
  have s1_eq: "s1 = resolved s0 2 1 response2"
    unfolding s1_def using r2 s0(4) by (rule on_line_match)
  have s1: "promises s1 = [Pending, Fulfilled response2]" "pendingRequests s1 1 = Some 0"
    "process s1" "allocated_ids s1 = [JNumber 1, JNumber 2]"
    using s0 by (simp_all add: s1_eq resolved_def settle_def allocated_ids_def)
  define s2 where "s2 = on_line parse s1 line1"
  have s2_eq: "s2 = resolved s1 1 0 response1"
    unfolding s2_def using r1 s1(2) by (rule on_line_match)
  have s2: "promises s2 = [Fulfilled response1, Fulfilled response2]"
    using s1 by (simp add: s2_eq resolved_def settle_def)
  have run1: "program parse [CallTool name1 args1, CallTool name2 args2, Line line2] = Some s1"
    using s0(1) by (simp add: program_def s1_def s0_def start_def callTool_def)
  have run2: "program parse [CallTool name1 args1, CallTool name2 args2, Line line2, Line line1]
      = Some s2"
    using s0(1) s1(3) by (simp add: program_def s2_def s1_def s0_def start_def callTool_def)
  from run1 s1 show "\<exists>s. program parse [CallTool name1 args1, CallTool name2 args2, Line line2]
      = Some s \<and> allocated_ids s = [JNumber 1, JNumber 2]
      \<and> promises s = [Pending, Fulfilled response2]"
    by blast
  from run2 s2 show "\<exists>s. program parse
      [CallTool name1 args1, CallTool name2 args2, Line line2, Line line1] = Some s
      \<and> promises s = [Fulfilled response1, Fulfilled response2]"
    by blast
next
  fix es s p r
  assume h: "program parse es = Some s \<and> p < length (promises s) \<and> promises s ! p = Fulfilled r"
  then have inv: "inv s" using inv_program by blast
  with h show "js_get r ''id'' = JNumber (of_nat (Suc p))"
    unfolding inv_def inv_fulfilled_def by blast
  from inv h show "js_get (stdin s ! p) ''id'' = JNumber (of_nat (Suc p))"
    by (simp add: inv_def inv_shape_def)
qed

theorem responses_matched_by_id_witness:
  \<open>program JSON_parse [CallTool ''calculate_property'' (JObject []),
       CallTool ''search_components'' (JObject []),
       Line ''{"id":2,"result":{"output":"Y"}}''] \<noteq> None
   \<and> promises (the (program JSON_parse [CallTool ''calculate_property'' (JObject []),
       CallTool ''search_components'' (JObject []),
       Line ''{"id":2,"result":{"output":"Y"}}'']))
      = [Pending,
         Fulfilled (JObject [(''id'', JNumber 2), (''result'', JObject [(''output'', JString ''Y'')])])]
   \<and> promises (the (program JSON_parse [CallTool ''calculate_property'' (JObject []),
       CallTool ''search_components'' (JObject []),
       Line ''{"id":2,"result":{"output":"Y"}}'', Line ''{"id":1,"result":{"output":"X"}}'']))
      = [Fulfilled (JObject [(''id'', JNumber 1), (''result'', JObject [(''output'', JString ''X'')])]),
         Fulfilled (JObject [(''id'', JNumber 2), (''result'', JObject [(''output'', JString ''Y'')])])]\<close>
  using responses_matched_by_id [of JSON_parse \<open>''{"id":2,"result":{"output":"Y"}}''\<close>
      "JObject [(''id'', JNumber 2), (''result'', JObject [(''output'', JString ''Y'')])]"
      \<open>''{"id":1,"result":{"output":"X"}}''\<close>
      "JObject [(''id'', JNumber 1), (''result'', JObject [(''output'', JString ''X'')])]"
      "''calculate_property''" "JObject []" "''search_components''" "JObject []"]
  by (simp add: parse_output_X parse_output_Y) (simp add: run_eval parse_output_X parse_output_Y)

section \<open>Lines that are not JSON\<close>

lemma on_line_log:
  "\<exists>c'. on_line parse (s\<lparr>console_error := c\<rparr>) line = (on_line parse s line)\<lparr>console_error := c'\<rparr>"
proof (cases rule: on_line_cases [of parse s line])
  case (dropped c0)
  show ?thesis
  proof (cases rule: on_line_cases [of parse "s\<lparr>console_error := c\<rparr>" line])
    case d: (dropped c1)
    have "on_line parse (s\<lparr>console_error := c\<rparr>) line = (on_line parse s line)\<lparr>console_error := c1\<rparr>"
      by (simp add: d dropped)
    then show ?thesis ..
  next
    case r: (resolved rid p response)
    then have "on_line parse s line = resolved s rid p response"
      using on_line_match [of parse line response rid s p] by simp
    with r(4) have "on_line parse (s\<lparr>console_error := c\<rparr>) line
        = (on_line parse s line)\<lparr>console_error := c\<rparr>"
      by (simp add: resolved_def)
    then show ?thesis ..
  qed
next
  case (resolved rid p response)
  then have "on_line parse (s\<lparr>console_error := c\<rparr>) line
      = resolved (s\<lparr>console_error := c\<rparr>) rid p response"
    using on_line_match [of parse line response rid "s\<lparr>console_error := c\<rparr>" p] by simp
  with resolved(4) have "on_line parse (s\<lparr>console_error := c\<rparr>) line
      = (on_line parse s line)\<lparr>console_error := c\<rparr>"
    by (simp add: resolved_def)
  then show ?thesis ..
qed

lemma on_timeout_log:
  "on_timeout (s\<lparr>console_error := c\<rparr>) rid p = (on_timeout s rid p)\<lparr>console_error := c\<rparr>"
  by (cases "pendingRequests s rid") (simp_all add: on_timeout_def)

lemma step_log:
  assumes "step parse s e = Some s'"
  shows "\<exists>c'. step parse (s\<lparr>console_error := c\<rparr>) e = Some (s'\<lparr>console_error := c'\<rparr>)"
proof (cases e)
  case (CallTool toolName args)
  with assms have "step parse (s\<lparr>console_error := c\<rparr>) e = Some (s'\<lparr>console_error := c\<rparr>)"
    by (auto simp: callTool_def Let_def)
  then show ?thesis ..
next
  case (Line line)
  with assms have s': "process s" "s' = on_line parse s line" by (auto split: if_splits)
  from on_line_log [of parse c s line] obtain c' where
    "on_line parse (s\<lparr>console_error := c\<rparr>) line = (on_line parse s line)\<lparr>console_error := c'\<rparr>" ..
  with s' Line have "step parse (s\<lparr>console_error := c\<rparr>) e = Some (s'\<lparr>console_error := c'\<rparr>)"
    by simp
  then show ?thesis ..
next
  case (Fire k)
  note f = step_Fire [OF assms [unfolded Fire]]
  have "step parse (s\<lparr>console_error := c\<rparr>) (Fire k)
      = Some (on_timeout (flagged (s\<lparr>console_error := c\<rparr>) k)
          (t_requestId (timers s ! k)) (t_promise (timers s ! k)))"
    using f(1,2,3) by (simp add: flagged_def)
  also have "flagged (s\<lparr>console_error := c\<rparr>) k = (flagged s k)\<lparr>console_error := c\<rparr>"
    by (simp add: flagged_def)
  finally have "step parse (s\<lparr>console_error := c\<rparr>) e = Some (s'\<lparr>console_error := c\<rparr>)"
    by (simp add: on_timeout_log f(4) Fire)
  then show ?thesis ..
next
  case (Tick d)
  with assms have "step parse (s\<lparr>console_error := c\<rparr>) e = Some (s'\<lparr>console_error := c\<rparr>)"
    by auto
  then show ?thesis ..
qed

lemma run_log:
  "run parse s es = Some s' \<Longrightarrow>
     \<exists>c'. run parse (s\<lparr>console_error := c\<rparr>) es = Some (s'\<lparr>console_error := c'\<rparr>)"
proof (induction es arbitrary: s c)
  case Nil
  then have "run parse (s\<lparr>console_error := c\<rparr>) [] = Some (s'\<lparr>console_error := c\<rparr>)" by simp
  then show ?case ..
next
  case (Cons e es)
  from Cons.prems obtain s1 where s1: "step parse s e = Some s1" "run parse s1 es = Some s'"
    by (auto split: option.splits)
  from step_log [OF s1(1), of c] obtain c1 where
    c1: "step parse (s\<lparr>console_error := c\<rparr>) e = Some (s1\<lparr>console_error := c1\<rparr>)" ..
  from Cons.IH [OF s1(2), of c1] obtain c' where
    "run parse (s1\<lparr>console_error := c1\<rparr>) es = Some (s'\<lparr>console_error := c'\<rparr>)" ..
  with c1 have "run parse (s\<lparr>console_error := c\<rparr>) (e # es) = Some (s'\<lparr>console_error := c'\<rparr>)"
    by simp
  then show ?case ..
qed

text \<open>
  Claim C8. A line that \<open>JSON.parse\<close> rejects is logged and dropped: the handler returns
  with the error appended to what \<open>console.error\<close> received and nothing else changed, so no
  entry of the Map is removed, no promise is fulfilled or rejected and no timer is touched;
  and whatever happens next is handled exactly as if the line had not arrived (the two runs
  end in states that differ in the log only).
\<close>

theorem unparsable_line_dropped:
  assumes "parse line = Inl e"
  shows "on_line parse s line = s\<lparr>console_error := console_error s @ [e]\<rparr>
    \<and> pendingRequests (on_line parse s line) = pendingRequests s
    \<and> promises (on_line parse s line) = promises s
    \<and> timers (on_line parse s line) = timers s
    \<and> (\<forall>es s'. run parse s es = Some s' \<longrightarrow>
          (\<exists>c'. run parse (on_line parse s line) es = Some (s'\<lparr>console_error := c'\<rparr>)))"
proof -
  from assms have eq: "on_line parse s line = s\<lparr>console_error := console_error s @ [e]\<rparr>"
    by (simp add: on_line_def)
  have "\<exists>c'. run parse (on_line parse s line) es = Some (s'\<lparr>console_error := c'\<rparr>)"
    if "run parse s es = Some s'" for es s'
    unfolding eq using that by (rule run_log)
  then show ?thesis by (simp add: eq)
qed

theorem unparsable_line_dropped_witness:
  \<open>on_line JSON_parse (the (program JSON_parse [CallTool ''calculate_property'' (JObject [])]))
       ''Loading NIST data...''
     = (the (program JSON_parse [CallTool ''calculate_property'' (JObject [])]))
         \<lparr>console_error := [SyntaxError ''Unexpected token or end of JSON input'']\<rparr>
   \<and> promises (the (run JSON_parse
        (on_line JSON_parse (the (program JSON_parse [CallTool ''calculate_property'' (JObject [])]))
           ''Loading NIST data...'')
        [Line ''{"id":1,"result":{"output":"X"}}'']))
      = [Fulfilled (JObject [(''id'', JNumber 1), (''result'', JObject [(''output'', JString ''X'')])])]\<close>
  using unparsable_line_dropped [of JSON_parse \<open>''Loading NIST data...''\<close>
      "SyntaxError ''Unexpected token or end of JSON input''"
      "the (program JSON_parse [CallTool ''calculate_property'' (JObject [])])"]
  by (simp add: parse_diagnostic) (simp add: run_eval parse_output_X parse_diagnostic)

section \<open>Normalization of a tool result\<close>

lemma str_includes_iff: "str_includes s needle \<longleftrightarrow> (\<exists>ps ss. s = ps @ needle @ ss)"
proof (induction s)
  case Nil
  then show ?case by auto
next
  case (Cons c cs)
  show ?case
  proof
    assume "str_includes (c # cs) needle"
    then consider "prefix needle (c # cs)" | "str_includes cs needle" by auto
    then show "\<exists>ps ss. c # cs = ps @ needle @ ss"
    proof cases
      case 1
      then obtain ss where "c # cs = needle @ ss" by (auto simp: prefix_def)
      then have "c # cs = [] @ needle @ ss" by simp
      then show ?thesis by blast
    next
      case 2
      with Cons.IH obtain ps ss where "cs = ps @ needle @ ss" by blast
      then have "c # cs = (c # ps) @ needle @ ss" by simp
      then show ?thesis by blast
    qed
  next
    assume "\<exists>ps ss. c # cs = ps @ needle @ ss"
    then obtain ps ss where eq: "c # cs = ps @ needle @ ss" by blast
    show "str_includes (c # cs) needle"
    proof (cases ps)
      case Nil
      with eq have "prefix needle (c # cs)" by (simp add: prefix_def)
      then show ?thesis by simp
    next
      case (Cons p ps')
      with eq have "cs = ps' @ needle @ ss" by simp
      with Cons.IH have "str_includes cs needle" by blast
      then show ?thesis by simp
    qed
  qed
qed

lemma normalize_output:
  assumes "js_get (js_get result ''result'') ''output'' = JString text" "text \<noteq> []"
  shows "normalize parse result =
    (if str_includes text marker
     then (case parse text of
             Inl e \<Rightarrow> (JString text, JNull)
           | Inr jsonData \<Rightarrow>
               if nullish jsonData then (JString text, JNull)
               else (js_or (js_get jsonData ''formatted_text'') (JString text), jsonData))
     else (JString text, JNull))"
proof -
  from assms(1) have "\<not> nullish (js_get result ''result'')"
    by (cases "js_get result ''result''") (simp_all add: nullish_def)
  with assms show ?thesis
    by (simp add: normalize_def Let_def js_or_def split: sum.splits del: str_includes.simps)
qed

lemma marker_in_density:
  \<open>str_includes ''{"property":"density","formatted_text":"997.0 kg/m3","value":997.0}'' marker\<close>
  by (simp add: marker_def)

lemma marker_not_in_spaced:
  \<open>\<not> str_includes ''{"property" :"density","formatted_text":"997.0 kg/m3"}'' marker\<close>
  by (simp add: marker_def)

lemma marker_in_fragment: \<open>str_includes ''"property": 1'' marker\<close>
  by (simp add: marker_def)

text \<open>
  Claim C5, as the spec states it: every output that is a JSON document of a mapping with a
  \<open>property\<close> field is decoded. The handler decides by the text: it looks for the eleven
  characters \<open>"property":\<close> in the raw output. The output below is such a document, with a
  space before the colon; it does not contain that text, and it is returned as it came, with
  \<open>structuredData\<close> null.
\<close>

theorem structured_output_counterexample:
  \<open>JSON_parse ''{"property" :"density","formatted_text":"997.0 kg/m3"}''
     = Inr (JObject [(''property'', JString ''density''),
                     (''formatted_text'', JString ''997.0 kg/m3'')])
   \<and> normalize JSON_parse (JObject [(''id'', JNumber 1), (''result'', JObject [(''output'',
         JString ''{"property" :"density","formatted_text":"997.0 kg/m3"}'')])])
     = (JString ''{"property" :"density","formatted_text":"997.0 kg/m3"}'', JNull)\<close>
  by (simp add: parse_spaced normalize_output marker_not_in_spaced del: str_includes.simps)

text \<open>
  Claim C5, amended. When the output is a non-empty string that contains the text
  \<open>"property":\<close> and the decoder returns a value other than \<open>null\<close> for it, the
  \<open>structuredData\<close> is the whole decoded value, and the content is its \<open>formatted_text\<close>
  when that is truthy (the raw output otherwise). The output of the spec's example gives the
  content \<open>997.0 kg/m3\<close> and the decoded mapping.
\<close>

theorem structured_output_normalized:
  assumes "js_get (js_get result ''result'') ''output'' = JString text" "text \<noteq> []"
    and "str_includes text marker" "parse text = Inr jsonData" "\<not> nullish jsonData"
  shows \<open>snd (normalize parse result) = jsonData
    \<and> (truthy (js_get jsonData ''formatted_text'') \<longrightarrow>
          fst (normalize parse result) = js_get jsonData ''formatted_text'')
    \<and> (\<not> truthy (js_get jsonData ''formatted_text'') \<longrightarrow>
          fst (normalize parse result) = JString text)
    \<and> normalize JSON_parse (JObject [(''id'', JNumber 1), (''result'', JObject [(''output'',
          JString ''{"property":"density","formatted_text":"997.0 kg/m3","value":997.0}'')])])
       = (JString ''997.0 kg/m3'',
          JObject [(''property'', JString ''density''),
                   (''formatted_text'', JString ''997.0 kg/m3''), (''value'', JNumber 997)])\<close>
proof -
  have general: "normalize parse result
      = (js_or (js_get jsonData ''formatted_text'') (JString text), jsonData)"
    using assms(3,4,5) by (simp add: normalize_output [OF assms(1,2)] del: str_includes.simps)
  have example: \<open>normalize JSON_parse (JObject [(''id'', JNumber 1), (''result'', JObject [(''output'',
          JString ''{"property":"density","formatted_text":"997.0 kg/m3","value":997.0}'')])])
       = (JString ''997.0 kg/m3'',
          JObject [(''property'', JString ''density''),
                   (''formatted_text'', JString ''997.0 kg/m3''), (''value'', JNumber 997)])\<close>
    by (simp add: normalize_output js_or_def nullish_def marker_in_density parse_density
        del: str_includes.simps)
  from general example show ?thesis by (simp add: js_or_def)
qed

theorem structured_output_normalized_witness:
  \<open>snd (normalize JSON_parse (JObject [(''id'', JNumber 7), (''result'', JObject [(''output'',
       JString ''{"property":"density","formatted_text":"997.0 kg/m3","value":997.0}'')])]))
     = JObject [(''property'', JString ''density''),
                (''formatted_text'', JString ''997.0 kg/m3''), (''value'', JNumber 997)]
   \<and> fst (normalize JSON_parse (JObject [(''id'', JNumber 7), (''result'', JObject [(''output'',
       JString ''{"property":"density","formatted_text":"997.0 kg/m3","value":997.0}'')])]))
     = JString ''997.0 kg/m3''\<close>
  using structured_output_normalized [of
      \<open>JObject [(''id'', JNumber 7), (''result'', JObject [(''output'',
         JString ''{"property":"density","formatted_text":"997.0 kg/m3","value":997.0}'')])]\<close>
      \<open>''{"property":"density","formatted_text":"997.0 kg/m3","value":997.0}''\<close>
      JSON_parse
      "JObject [(''property'', JString ''density''),
                (''formatted_text'', JString ''997.0 kg/m3''), (''value'', JNumber 997)]"]
  by (simp add: parse_density marker_in_density nullish_def del: str_includes.simps)

text \<open>
  Claim C6, as the spec states it: an output \<open>X\<close> without the marker gives the content
  \<open>X\<close>. The handler takes the output with \<open>||\<close>, so the empty string, being falsy, is
  passed over for \<open>result.result\<close>: the content is then the mapping \<open>{output: ""}\<close>.
\<close>

theorem plain_output_counterexample:
  "\<not> str_includes [] marker
   \<and> normalize JSON_parse (JObject [(''id'', JNumber 1),
         (''result'', JObject [(''output'', JString [])])])
     = (JObject [(''output'', JString [])], JNull)
   \<and> fst (normalize JSON_parse (JObject [(''id'', JNumber 1),
         (''result'', JObject [(''output'', JString [])])])) \<noteq> JString []"
  by (simp add: normalize_def Let_def js_or_def nullish_def marker_def)

text \<open>
  Claim C6, amended. A non-empty output string that does not contain the text
  \<open>"property":\<close> is the content, with \<open>structuredData\<close> null; and so is a non-empty output
  string that contains it and that the decoder rejects.
\<close>

theorem plain_output_normalized:
  assumes "js_get (js_get result ''result'') ''output'' = JString text" "text \<noteq> []"
  shows "(\<not> str_includes text marker \<longrightarrow> normalize parse result = (JString text, JNull))
    \<and> (str_includes text marker \<and> parse text = Inl e \<longrightarrow>
          normalize parse result = (JString text, JNull))"
  by (simp add: normalize_output [OF assms] del: str_includes.simps)

theorem plain_output_normalized_witness:
  \<open>normalize JSON_parse (JObject [(''id'', JNumber 1), (''result'', JObject [(''output'', JString ''X'')])])
     = (JString ''X'', JNull)
   \<and> normalize JSON_parse (JObject [(''id'', JNumber 1),
        (''result'', JObject [(''output'', JString ''"property": 1'')])])
     = (JString ''"property": 1'', JNull)\<close>
  using plain_output_normalized [of
      "JObject [(''id'', JNumber 1), (''result'', JObject [(''output'', JString ''X'')])]" "''X''"
      JSON_parse]
    plain_output_normalized [of
      \<open>JObject [(''id'', JNumber 1), (''result'', JObject [(''output'', JString ''"property": 1'')])]\<close>
      \<open>''"property": 1''\<close> JSON_parse "SyntaxError ''Unexpected token or end of JSON input''"]
  by (simp add: marker_in_fragment parse_fragment del: str_includes.simps) (simp add: marker_def)

section \<open>The structured data of the HTTP response\<close>

lemma response_structuredData_find:
  "response_structuredData rs =
     (case find (\<lambda>m. truthy (structuredData m)) rs of None \<Rightarrow> JNull | Some m \<Rightarrow> structuredData m)"
  by (induction rs) simp_all

lemma response_structuredData_first:
  "\<forall>b \<in> set before. \<not> truthy (structuredData b) \<Longrightarrow> truthy (structuredData m) \<Longrightarrow>
     response_structuredData (before @ m # rest) = structuredData m"
  by (induction before) simp_all

lemma response_structuredData_none:
  "\<forall>m \<in> set rs. \<not> truthy (structuredData m) \<Longrightarrow> response_structuredData rs = JNull"
  by (induction rs) simp_all

lemma parse_heat_capacity:
  \<open>JSON_parse ''{"property":"heat_capacity","formatted_text":"4181 J/kg/K"}'' =
     Inr (JObject [(''property'', JString ''heat_capacity''),
       (''formatted_text'', JString ''4181 J/kg/K'')])\<close>
  by (simp add: json_eval)

lemma marker_in_heat_capacity:
  \<open>str_includes ''{"property":"heat_capacity","formatted_text":"4181 J/kg/K"}'' marker\<close>
  by (simp add: marker_def)

text \<open>
  Claim C10. The \<open>structuredData\<close> of the HTTP response is that of the first entry of
  \<open>toolCallResults\<close>, in the order of the tool calls, whose \<open>structuredData\<close> is truthy, and
  \<open>null\<close> when there is none. An entry made from a fulfilled call holds what the
  normalization gave, an entry made in the \<open>catch\<close> branch holds none. So when the entries before
  one hold \<open>null\<close> or nothing and that one holds a decoded mapping, the response carries this
  mapping, whatever the later entries hold.
\<close>

theorem first_structured_result_wins:
  "response_structuredData (toolCallResults parse calls) =
      (case find (\<lambda>m. truthy (structuredData m)) (toolCallResults parse calls) of
         None \<Rightarrow> JNull | Some m \<Rightarrow> structuredData m)
   \<and> ((\<forall>b \<in> set before. structuredData b = JNull \<or> structuredData b = JUndefined)
        \<and> structuredData m = JObject kvs \<longrightarrow>
        response_structuredData (before @ m # rest) = JObject kvs)
   \<and> ((\<forall>m \<in> set rs. structuredData m = JNull \<or> structuredData m = JUndefined) \<longrightarrow>
        response_structuredData rs = JNull)
   \<and> structuredData (tool_result parse call_id functionName (Inl e)) = JUndefined
   \<and> (\<not> nullish result \<longrightarrow>
        structuredData (tool_result parse call_id functionName (Inr result))
          = snd (normalize parse result))"
proof (intro conjI impI)
  show "response_structuredData (toolCallResults parse calls) =
      (case find (\<lambda>m. truthy (structuredData m)) (toolCallResults parse calls) of
         None \<Rightarrow> JNull | Some m \<Rightarrow> structuredData m)"
    by (rule response_structuredData_find)
next
  assume h: "(\<forall>b \<in> set before. structuredData b = JNull \<or> structuredData b = JUndefined)
      \<and> structuredData m = JObject kvs"
  then have "\<forall>b \<in> set before. \<not> truthy (structuredData b)" by auto
  moreover from h have "truthy (structuredData m)" by simp
  ultimately have "response_structuredData (before @ m # rest) = structuredData m"
    by (rule response_structuredData_first)
  with h show "response_structuredData (before @ m # rest) = JObject kvs" by simp
next
  assume "\<forall>m \<in> set rs. structuredData m = JNull \<or> structuredData m = JUndefined"
  then have "\<forall>m \<in> set rs. \<not> truthy (structuredData m)" by auto
  then show "response_structuredData rs = JNull" by (rule response_structuredData_none)
next
  show "structuredData (tool_result parse call_id functionName (Inl e)) = JUndefined"
    by (simp add: tool_result_def error_message_def)
next
  assume "\<not> nullish result"
  then show "structuredData (tool_result parse call_id functionName (Inr result))
      = snd (normalize parse result)"
    by (simp add: tool_result_def)
qed

lemma scenario_results:
  \<open>toolCallResults JSON_parse
     [(''call_1'', ''search_components'',
         Inr (JObject [(''id'', JNumber 1), (''result'', JObject [(''output'', JString ''X'')])])),
      (''call_2'', ''calculate_property'', Inl (Error ''MCP server timeout'')),
      (''call_3'', ''calculate_property'',
         Inr (JObject [(''id'', JNumber 3), (''result'', JObject [(''output'', JString
           ''{"property":"density","formatted_text":"997.0 kg/m3","value":997.0}'')])])),
      (''call_4'', ''calculate_property'',
         Inr (JObject [(''id'', JNumber 4), (''result'', JObject [(''output'', JString
           ''{"property":"heat_capacity","formatted_text":"4181 J/kg/K"}'')])]))]
   = [\<lparr>tool_call_id = ''call_1'', role = ''tool'', name = ''search_components'',
        content = JString ''X'', structuredData = JNull\<rparr>,
      \<lparr>tool_call_id = ''call_2'', role = ''tool'', name = ''calculate_property'',
        content = JString ''Error: MCP server timeout'', structuredData = JUndefined\<rparr>,
      \<lparr>tool_call_id = ''call_3'', role = ''tool'', name = ''calculate_property'',
        content = JString ''997.0 kg/m3'',
        structuredData = JObject [(''property'', JString ''density''),
          (''formatted_text'', JString ''997.0 kg/m3''), (''value'', JNumber 997)]\<rparr>,
      \<lparr>tool_call_id = ''call_4'', role = ''tool'', name = ''calculate_property'',
        content = JString ''4181 J/kg/K'',
        structuredData = JObject [(''property'', JString ''heat_capacity''),
          (''formatted_text'', JString ''4181 J/kg/K'')]\<rparr>]\<close>
  by (simp add: toolCallResults_def tool_result_def error_message_def nullish_def
      normalize_output parse_density parse_heat_capacity marker_in_density
      marker_in_heat_capacity js_or_def del: str_includes.simps)
    (simp add: marker_def)

theorem first_structured_result_wins_witness:
  \<open>response_structuredData (toolCallResults JSON_parse
     [(''call_1'', ''search_components'',
         Inr (JObject [(''id'', JNumber 1), (''result'', JObject [(''output'', JString ''X'')])])),
      (''call_2'', ''calculate_property'', Inl (Error ''MCP server timeout'')),
      (''call_3'', ''calculate_property'',
         Inr (JObject [(''id'', JNumber 3), (''result'', JObject [(''output'', JString
           ''{"property":"density","formatted_text":"997.0 kg/m3","value":997.0}'')])])),
      (''call_4'', ''calculate_property'',
         Inr (JObject [(''id'', JNumber 4), (''result'', JObject [(''output'', JString
           ''{"property":"heat_capacity","formatted_text":"4181 J/kg/K"}'')])]))])
   = JObject [(''property'', JString ''density''),
          (''formatted_text'', JString ''997.0 kg/m3''), (''value'', JNumber 997)]\<close>
  unfolding scenario_results
  using first_structured_result_wins [of JSON_parse "[]"
     "[\<lparr>tool_call_id = ''call_1'', role = ''tool'', name = ''search_components'',
        content = JString ''X'', structuredData = JNull\<rparr>,
      \<lparr>tool_call_id = ''call_2'', role = ''tool'', name = ''calculate_property'',
        content = JString ''Error: MCP server timeout'', structuredData = JUndefined\<rparr>]"
     "\<lparr>tool_call_id = ''call_3'', role = ''tool'', name = ''calculate_property'',
        content = JString ''997.0 kg/m3'',
        structuredData = JObject [(''property'', JString ''density''),
          (''formatted_text'', JString ''997.0 kg/m3''), (''value'', JNumber 997)]\<rparr>"
     "[(''property'', JString ''density''),
          (''formatted_text'', JString ''997.0 kg/m3''), (''value'', JNumber 997)]"
     "[\<lparr>tool_call_id = ''call_4'', role = ''tool'', name = ''calculate_property'',
        content = JString ''4181 J/kg/K'',
        structuredData = JObject [(''property'', JString ''heat_capacity''),
          (''formatted_text'', JString ''4181 J/kg/K'')]\<rparr>]"
     "[]" "''call_2''" "''calculate_property''" "Error ''MCP server timeout''" "JObject []"]
  by (simp add: nullish_def)

end
